theory Spec2Isabelle
  imports Main
begin

section \<open>The static configuration (config.ts)\<close>

text \<open>
  A filter definition of \<^verbatim>\<open>TABS_CONFIG.filters\<close>. The property \<^verbatim>\<open>listens_to\<close> is optional
  in the source, so it is an option here: \<open>None\<close> is the absent property.
\<close>

record FilterDef =
  name :: string
  label :: string
  field :: string
  type :: string
  listens_to :: "string list option"

record Lookml =
  model :: string
  explore :: string

record DashboardDef =
  dash_id :: string
  dash_label :: string

record DateFilterDef =
  date_name :: string
  date_label :: string
  date_type :: string

record TabsConfig =
  lookml :: Lookml
  dashboards :: "DashboardDef list"
  filters :: "FilterDef list"
  date_filter :: DateFilterDef

definition TABS_CONFIG :: TabsConfig where
  "TABS_CONFIG =
     \<lparr> lookml = \<lparr> model = ''ecomm'', explore = ''order_items'' \<rparr>,
       dashboards =
         [ \<lparr> dash_id = ''nXJRwDcnj1SY3mz3uJtEJt'', dash_label = ''Basic visualization examples'' \<rparr>,
           \<lparr> dash_id = ''lCLlweEWzJ6EdGTgsIHjPB'', dash_label = ''Intermediate visualization examples'' \<rparr>,
           \<lparr> dash_id = ''OYRrqT1Tyxqh9PY06I3rxo'', dash_label = ''Advanced visualization examples'' \<rparr> ],
       filters =
         [ \<lparr> name = ''Country'', label = ''Country'', field = ''users.country'',
             type = ''select_multi'', listens_to = None \<rparr>,
           \<lparr> name = ''State'', label = ''State'', field = ''users.state'',
             type = ''select_multi'', listens_to = Some [''Country''] \<rparr>,
           \<lparr> name = ''City'', label = ''City'', field = ''users.city'',
             type = ''select_multi'', listens_to = Some [''Country'', ''State''] \<rparr>,
           \<lparr> name = ''Category'', label = ''Category'', field = ''products.category'',
             type = ''select_multi'', listens_to = None \<rparr>,
           \<lparr> name = ''Department'', label = ''Department'', field = ''products.department'',
             type = ''button_group'', listens_to = None \<rparr> ],
       date_filter =
         \<lparr> date_name = ''Created Date'', date_label = ''Created Date'', date_type = ''simple'' \<rparr> \<rparr>"

section \<open>The dependency propagator (Tabs.tsx, the staged-filter handlers)\<close>

text \<open>
  \<^verbatim>\<open>IAllFilters\<close> of Tabs.tsx: an object from filter names to lists of selected values.
  A key that is absent (or was removed with \<^verbatim>\<open>delete\<close>) is \<open>None\<close>.
\<close>

type_synonym IAllFilters = "string \<rightharpoonup> string list"

text \<open>
  \<^verbatim>\<open>TABS_CONFIG.filters.filter(f => f.listens_to?.includes(name)).map(f => f.name)\<close>:
  an absent \<^verbatim>\<open>listens_to\<close> makes the optional call undefined, which \<^verbatim>\<open>filter\<close> reads as false.
\<close>

definition directChildren :: "TabsConfig \<Rightarrow> string \<Rightarrow> string list" where
  "directChildren cfg nm =
     map name
       (filter (\<lambda>f. case listens_to f of None \<Rightarrow> False | Some ps \<Rightarrow> nm \<in> set ps)
          (filters cfg))"

text \<open>
  Running a computation that may not return over a list, left to right; the whole is
  \<open>None\<close> as soon as one element is. This is what \<^verbatim>\<open>flatMap\<close> over the recursive call
  needs: if one recursive call never returns, neither does the caller.
\<close>

primrec mapM :: "('a \<Rightarrow> 'b option) \<Rightarrow> 'a list \<Rightarrow> 'b list option" where
  "mapM f [] = Some []"
| "mapM f (x # xs) =
     Option.bind (f x) (\<lambda>y. Option.bind (mapM f xs) (\<lambda>ys. Some (y # ys)))"

lemma mapM_mono [partial_function_mono]:
  assumes "\<And>x. mono_option (\<lambda>f. B f x)"
  shows "mono_option (\<lambda>f. mapM (B f) xs)"
  by (induction xs) (auto intro!: partial_function_mono assms)

text \<open>
  \<^verbatim>\<open>getAllDependents\<close>, written twice in the source with the same body (inside
  \<^verbatim>\<open>handleFilterChange\<close> and inside \<^verbatim>\<open>handleButtonGroupChange\<close>). The recursion has no
  visited set, so on a cyclic configuration it never returns (in JavaScript: the call
  stack overflows); not returning is the value \<open>None\<close>.
\<close>

partial_function (option) getAllDependents :: "TabsConfig \<Rightarrow> string \<Rightarrow> string list option" where
  "getAllDependents cfg nm =
     Option.bind (mapM (getAllDependents cfg) (directChildren cfg nm))
       (\<lambda>rest. Some (directChildren cfg nm @ concat rest))"

declare getAllDependents.simps [code]

text \<open>\<^verbatim>\<open>dependentsToClear.forEach(depName => { delete newFilters[depName] })\<close>\<close>

definition deleteAll :: "string list \<Rightarrow> IAllFilters \<Rightarrow> IAllFilters" where
  "deleteAll dependentsToClear newFilters =
     fold (\<lambda>depName m. m(depName := None)) dependentsToClear newFilters"

text \<open>
  \<^verbatim>\<open>handleFilterChange\<close>: the updater passed to \<^verbatim>\<open>setStagedFilters\<close>, as a function from the
  previous staged map to the next one. \<^verbatim>\<open>prevStagedFilters[filterName] || []\<close> reads an
  absent key as the empty list (an array, even an empty one, is truthy).
\<close>

definition handleFilterChange ::
    "TabsConfig \<Rightarrow> string \<Rightarrow> string list \<Rightarrow> IAllFilters \<Rightarrow> IAllFilters option" where
  "handleFilterChange cfg filterName newValues prevStagedFilters =
     (let oldValues = (case prevStagedFilters filterName of None \<Rightarrow> [] | Some vs \<Rightarrow> vs);
          newFilters = prevStagedFilters(filterName \<mapsto> newValues);
          isPureAddition = list_all (\<lambda>val. val \<in> set newValues) oldValues
      in if \<not> isPureAddition
         then Option.bind (getAllDependents cfg filterName)
                (\<lambda>dependentsToClear. Some (deleteAll dependentsToClear newFilters))
         else Some newFilters)"

text \<open>
  \<^verbatim>\<open>handleButtonGroupChange\<close>: the same clearing, with no test of the old value, on the
  staged map of the current render.
\<close>

definition handleButtonGroupChange ::
    "TabsConfig \<Rightarrow> string \<Rightarrow> string \<Rightarrow> IAllFilters \<Rightarrow> IAllFilters option" where
  "handleButtonGroupChange cfg filterName val stagedFilters =
     (let newStagedFilters = stagedFilters(filterName \<mapsto> [val])
      in Option.bind (getAllDependents cfg filterName)
           (\<lambda>dependentsToClear. Some (deleteAll dependentsToClear newStagedFilters)))"

subsection \<open>The dependency graph the specification speaks of\<close>

text \<open>
  \<open>(d, p) \<in> listens cfg\<close>: some configured filter named \<open>d\<close> lists \<open>p\<close> in its
  \<^verbatim>\<open>listens_to\<close>. The dependents of \<open>p\<close>, direct and transitive, are the names whose
  \<^verbatim>\<open>listens_to\<close> chain reaches \<open>p\<close>.
\<close>

definition listens :: "TabsConfig \<Rightarrow> (string \<times> string) set" where
  "listens cfg =
     {(d, p). \<exists>f \<in> set (filters cfg). name f = d \<and> (\<exists>ps. listens_to f = Some ps \<and> p \<in> set ps)}"

definition dependents :: "TabsConfig \<Rightarrow> string \<Rightarrow> string set" where
  "dependents cfg p = {d. (d, p) \<in> (listens cfg)\<^sup>+}"


section \<open>The option fetcher (Tabs.tsx, fetchFilterOptions)\<close>

text \<open>
  The query collaborator. A call of \<^verbatim>\<open>sdk.ok(sdk.run_inline_query({result_format: "json",
  body: queryBody}))\<close> either throws (\<open>Inl\<close>) or yields the rows (\<open>Inr\<close>). The handle
  itself may be absent (\<^verbatim>\<open>!sdk\<close>), which is \<open>None\<close>.
\<close>

datatype error = Error string

text \<open>
  A cell of a result row. The code only asks whether the cell is \<^verbatim>\<open>null\<close> and otherwise
  takes its \<^verbatim>\<open>toString()\<close>, so a value that is not null is kept as its string form. A
  property that is missing from the row is \<open>None\<close> in the row's map; a row that is itself
  falsy (\<^verbatim>\<open>null\<close>) is \<open>None\<close>.
\<close>

datatype cell = JNull | JValue string

type_synonym row = "(string \<rightharpoonup> cell) option"

record InlineQuery =
  q_model :: string
  q_view :: string
  q_fields :: "string list"
  q_filters :: "string \<rightharpoonup> string"

type_synonym sdk = "InlineQuery \<Rightarrow> error + row list"

record FilterOption =
  opt_value :: string
  opt_label :: string

text \<open>\<^verbatim>\<open>Array.prototype.join\<close> on an array of strings.\<close>

fun join :: "string \<Rightarrow> string list \<Rightarrow> string" where
  "join sep [] = []"
| "join sep [x] = x"
| "join sep (x # y # ys) = x @ sep @ join sep (y # ys)"

text \<open>
  An object built by assignments and read by \<^verbatim>\<open>for ... in\<close>, as the list of its
  properties in creation order: assigning to an existing key keeps its place. (JavaScript
  enumerates keys that are array indices first; filter names are not.)
\<close>

fun obj_set :: "('k \<times> 'v) list \<Rightarrow> 'k \<Rightarrow> 'v \<Rightarrow> ('k \<times> 'v) list" where
  "obj_set [] k v = [(k, v)]"
| "obj_set ((k', v') # kvs) k v =
     (if k' = k then (k, v) # kvs else (k', v') # obj_set kvs k v)"

text \<open>\<^verbatim>\<open>TABS_CONFIG.filters.find(f => f.name === n)\<close>: the first definition of that name.\<close>

definition findFilter :: "TabsConfig \<Rightarrow> string \<Rightarrow> FilterDef option" where
  "findFilter cfg n = find (\<lambda>f. name f = n) (filters cfg)"

text \<open>
  The loop of \<^verbatim>\<open>fetchFilterOptions\<close> that fills \<^verbatim>\<open>queryBody.filters\<close>, starting from the
  empty object. \<open>None\<close> is the omitted \<^verbatim>\<open>dependencies\<close> argument.
\<close>

definition queryFilters ::
    "TabsConfig \<Rightarrow> (string \<times> string list) list option \<Rightarrow> (string \<rightharpoonup> string)" where
  "queryFilters cfg dependencies =
     (case dependencies of
        None \<Rightarrow> Map.empty
      | Some deps \<Rightarrow>
          fold (\<lambda>(parentFilterName, parentValues) qf.
                  if length parentValues > 0
                  then (case findFilter cfg parentFilterName of
                          None \<Rightarrow> qf
                        | Some parentConfig \<Rightarrow> qf(field parentConfig \<mapsto> join '','' parentValues))
                  else qf)
               deps Map.empty)"

text \<open>
  The two callbacks applied to the rows: \<^verbatim>\<open>row && row[field] != null\<close> and the construction
  of the option. The second is partial: \<^verbatim>\<open>toString\<close> of a null or missing cell throws.
\<close>

definition keepRow :: "string \<Rightarrow> row \<Rightarrow> bool" where
  "keepRow fld r =
     (case r of
        None \<Rightarrow> False
      | Some cells \<Rightarrow> (case cells fld of None \<Rightarrow> False | Some JNull \<Rightarrow> False | Some (JValue s) \<Rightarrow> True))"

definition toOption :: "string \<Rightarrow> row \<Rightarrow> FilterOption option" where
  "toOption fld r =
     (case r of
        None \<Rightarrow> None
      | Some cells \<Rightarrow>
          (case cells fld of
             Some (JValue s) \<Rightarrow> Some \<lparr> opt_value = s, opt_label = s \<rparr>
           | _ \<Rightarrow> None))"

section \<open>The state of the Tabs component\<close>

text \<open>
  A \<^verbatim>\<open>Date\<close> as the three local-time readings \<^verbatim>\<open>handleUpdateClick\<close> takes of it, and the
  date range as the cases the code distinguishes: an object with \<^verbatim>\<open>from\<close> and \<^verbatim>\<open>to\<close>, an
  object with \<^verbatim>\<open>type\<close> (and \<^verbatim>\<open>value\<close>, \<^verbatim>\<open>unit\<close>), or neither.
\<close>

record JSDate =
  getFullYear :: int
  getMonth :: nat
  getDate :: nat

datatype DateRange = Range JSDate JSDate | Preset string int string | NoRange

text \<open>
  The five \<^verbatim>\<open>useState\<close> cells of \<^verbatim>\<open>Tabs\<close>, together with what the component did to the
  outside: the lines written with \<^verbatim>\<open>console.error\<close> and the queries sent.
\<close>

record TabsState =
  stagedFilters :: IAllFilters
  activeFilters :: IAllFilters
  filterOptions :: "string \<rightharpoonup> FilterOption list"
  dateRange :: DateRange
  isLoading :: bool
  console :: "(string \<times> error) list"
  issued :: "InlineQuery list"

definition initialState :: TabsState where
  "initialState =
     \<lparr> stagedFilters = Map.empty, activeFilters = Map.empty, filterOptions = Map.empty,
       dateRange = Preset ''last'' 7 ''days'', isLoading = True, console = [], issued = [] \<rparr>"

definition logFetchError :: "string \<Rightarrow> error \<Rightarrow> TabsState \<Rightarrow> TabsState" where
  "logFetchError filterName err st =
     st\<lparr> console := console st @ [(''Error fetching options for filter: '' @ filterName, err)] \<rparr>"

text \<open>
  \<^verbatim>\<open>fetchFilterOptions\<close>. The request is asynchronous in the source; here one fetch runs to
  its completion before the next begins, so the interleaving of replies is not modelled.
\<close>

definition fetchFilterOptions ::
    "sdk option \<Rightarrow> TabsConfig \<Rightarrow> string \<Rightarrow> (string \<times> string list) list option
       \<Rightarrow> TabsState \<Rightarrow> TabsState" where
  "fetchFilterOptions sdk cfg filterName dependencies st =
     (case findFilter cfg filterName of
        None \<Rightarrow> st
      | Some filterConfig \<Rightarrow>
          (case sdk of
             None \<Rightarrow> st
           | Some run_inline_query \<Rightarrow>
               (let queryBody =
                      \<lparr> q_model = model (lookml cfg), q_view = explore (lookml cfg),
                        q_fields = [field filterConfig],
                        q_filters = queryFilters cfg dependencies \<rparr>;
                    st1 = st\<lparr> issued := issued st @ [queryBody] \<rparr>
                in case run_inline_query queryBody of
                     Inl err \<Rightarrow> logFetchError filterName err st1
                   | Inr result \<Rightarrow>
                       (case mapM (toOption (field filterConfig))
                               (filter (keepRow (field filterConfig)) result) of
                          None \<Rightarrow> logFetchError filterName (Error ''TypeError'') st1
                        | Some options \<Rightarrow>
                            st1\<lparr> filterOptions := (filterOptions st1)(filterName \<mapsto> options) \<rparr>))))"

text \<open>
  The first effect: with an SDK handle, fetch the options of every configured filter
  without the \<^verbatim>\<open>dependencies\<close> argument (\<^verbatim>\<open>Promise.all\<close> over all of them), then set the
  active filters to the default date entry and clear the loading flag.
\<close>

definition fetchInitialOptions :: "sdk option \<Rightarrow> TabsConfig \<Rightarrow> TabsState \<Rightarrow> TabsState" where
  "fetchInitialOptions sdk cfg st =
     (let st1 = st\<lparr> isLoading := True \<rparr>;
          st2 = fold (\<lambda>f s. fetchFilterOptions sdk cfg (name f) None s) (filters cfg) st1;
          st3 = st2\<lparr> activeFilters := [date_name (date_filter cfg) \<mapsto> [''last 7 days'']] \<rparr>
      in st3\<lparr> isLoading := False \<rparr>)"

definition initialLoadEffect :: "sdk option \<Rightarrow> TabsConfig \<Rightarrow> TabsState \<Rightarrow> TabsState" where
  "initialLoadEffect sdk cfg st =
     (case sdk of None \<Rightarrow> st | Some _ \<Rightarrow> fetchInitialOptions sdk cfg st)"

text \<open>
  The second effect, which React runs after a render in which \<^verbatim>\<open>stagedFilters\<close> changed.
  \<open>parentsWithValues\<close> is the inner \<^verbatim>\<open>forEach\<close>: the object and the flag it leaves.
\<close>

definition dependentFilters :: "TabsConfig \<Rightarrow> FilterDef list" where
  "dependentFilters cfg =
     filter (\<lambda>f. case listens_to f of None \<Rightarrow> False | Some ps \<Rightarrow> length ps > 0) (filters cfg)"

definition parentsWithValues ::
    "IAllFilters \<Rightarrow> string list \<Rightarrow> (string \<times> string list) list \<times> bool" where
  "parentsWithValues staged ps =
     fold (\<lambda>parentName (pwv, hasAtLeastOneParentWithValue).
             case staged parentName of
               None \<Rightarrow> (pwv, hasAtLeastOneParentWithValue)
             | Some parentValues \<Rightarrow>
                 if length parentValues > 0
                 then (obj_set pwv parentName parentValues, True)
                 else (pwv, hasAtLeastOneParentWithValue))
          ps ([], False)"

definition cascadeEffect :: "sdk option \<Rightarrow> TabsConfig \<Rightarrow> TabsState \<Rightarrow> TabsState" where
  "cascadeEffect sdk cfg st =
     fold (\<lambda>depFilter s.
             case parentsWithValues (stagedFilters st)
                    (case listens_to depFilter of None \<Rightarrow> [] | Some ps \<Rightarrow> ps) of
               (pwv, hasAtLeastOneParentWithValue) \<Rightarrow>
                 if hasAtLeastOneParentWithValue
                 then fetchFilterOptions sdk cfg (name depFilter) (Some pwv) s
                 else fetchFilterOptions sdk cfg (name depFilter) None s)
          (dependentFilters cfg) st"

subsection \<open>The Update and Reset handlers\<close>

text \<open>
  Decimal \<^verbatim>\<open>toString\<close> of a whole number (the readings of a date, and the \<^verbatim>\<open>value\<close> of a
  preset range: 7, 14, 30 or 90), and \<^verbatim>\<open>padStart\<close>.
\<close>

fun nat_toString :: "nat \<Rightarrow> string" where
  "nat_toString n =
     (if n < 10 then [''0123456789'' ! n]
      else nat_toString (n div 10) @ [''0123456789'' ! (n mod 10)])"

declare nat_toString.simps [simp del]

definition int_toString :: "int \<Rightarrow> string" where
  "int_toString i = (if i < 0 then ''-'' @ nat_toString (nat (- i)) else nat_toString (nat i))"

definition padStart :: "nat \<Rightarrow> string \<Rightarrow> string \<Rightarrow> string" where
  "padStart targetLength padString s =
     (if padString = [] then s
      else take (targetLength - length s) (concat (replicate targetLength padString)) @ s)"

definition formatDate :: "JSDate \<Rightarrow> string" where
  "formatDate d =
     (let year = int_toString (getFullYear d);
          month = padStart 2 ''0'' (nat_toString (getMonth d + 1));
          day = padStart 2 ''0'' (nat_toString (getDate d))
      in year @ ''/'' @ month @ ''/'' @ day)"

definition dateFilterString :: "DateRange \<Rightarrow> string" where
  "dateFilterString dr =
     (case dr of
        Range from to \<Rightarrow> formatDate from @ '' to '' @ formatDate to
      | Preset t v u \<Rightarrow> t @ '' '' @ int_toString v @ '' '' @ u
      | NoRange \<Rightarrow> [])"

definition handleUpdateClick :: "TabsConfig \<Rightarrow> TabsState \<Rightarrow> TabsState" where
  "handleUpdateClick cfg st =
     (let newActiveFilters =
            (stagedFilters st)
              (date_name (date_filter cfg) \<mapsto>
                 (if dateFilterString (dateRange st) \<noteq> [] then [dateFilterString (dateRange st)]
                  else []))
      in st\<lparr> activeFilters := newActiveFilters \<rparr>)"

definition handleResetClick :: "TabsState \<Rightarrow> TabsState" where
  "handleResetClick st =
     st\<lparr> stagedFilters := Map.empty, dateRange := Preset ''last'' 7 ''days'' \<rparr>"

text \<open>\<^verbatim>\<open>dashboardFilters\<close>: what the embedded dashboards receive, each list joined.\<close>

definition dashboardFilters :: "IAllFilters \<Rightarrow> (string \<rightharpoonup> string)" where
  "dashboardFilters active = (\<lambda>filterName. map_option (join '','') (active filterName))"

subsection \<open>The steps of the component\<close>

text \<open>
  Everything that can change the state of \<^verbatim>\<open>Tabs\<close>: the two effects, the two staged-filter
  handlers, the two buttons, and the choice of a date range (the preset list items and
  the calendar, which both call \<^verbatim>\<open>setDateRange\<close>). A step is \<open>None\<close> when the handler does
  not return.
\<close>

datatype TabsEvent =
    InitialLoad
  | StagedChanged
  | FilterChange string "string list"
  | ButtonGroupChange string string
  | UpdateClick
  | ResetClick
  | SelectDateRange DateRange

fun tabsStep :: "sdk option \<Rightarrow> TabsConfig \<Rightarrow> TabsEvent \<Rightarrow> TabsState \<Rightarrow> TabsState option" where
  "tabsStep sdk cfg InitialLoad st = Some (initialLoadEffect sdk cfg st)"
| "tabsStep sdk cfg StagedChanged st = Some (cascadeEffect sdk cfg st)"
| "tabsStep sdk cfg (FilterChange filterName newValues) st =
     map_option (\<lambda>newFilters. st\<lparr> stagedFilters := newFilters \<rparr>)
       (handleFilterChange cfg filterName newValues (stagedFilters st))"
| "tabsStep sdk cfg (ButtonGroupChange filterName v) st =
     map_option (\<lambda>newStagedFilters. st\<lparr> stagedFilters := newStagedFilters \<rparr>)
       (handleButtonGroupChange cfg filterName v (stagedFilters st))"
| "tabsStep sdk cfg UpdateClick st = Some (handleUpdateClick cfg st)"
| "tabsStep sdk cfg ResetClick st = Some (handleResetClick st)"
| "tabsStep sdk cfg (SelectDateRange dr) st = Some (st\<lparr> dateRange := dr \<rparr>)"

section \<open>The dashboard embedder (Dashboards.tsx)\<close>

text \<open>
  \<^verbatim>\<open>IAllFilters\<close> of Dashboards.tsx (imported into Tabs.tsx as \<^verbatim>\<open>DashboardFilters\<close>): filter
  names to comma-separated strings. The connection handle the embed SDK returns is opaque.
\<close>

type_synonym DashboardFilters = "string \<rightharpoonup> string"

datatype LookerDashboard = LookerDashboard nat

text \<open>
  The \<^verbatim>\<open>extensionSDK\<close> object of the extension context: which object it is (React compares
  the entries of a dependency array by identity) and the \<^verbatim>\<open>lookerHostData?.hostUrl\<close> it
  gives. The context may hold no object at all.
\<close>

datatype ExtensionSDK = ExtensionSDK nat "string option"

definition hostUrlOf :: "ExtensionSDK option \<Rightarrow> string option" where
  "hostUrlOf extensionSDK =
     (case extensionSDK of None \<Rightarrow> None | Some (ExtensionSDK ident hostUrl) \<Rightarrow> hostUrl)"

text \<open>
  What the component asks of the embed SDK and of the page, in order. The builder chain
  \<^verbatim>\<open>createDashboardWithId(id).withNext().withTheme('Custom').withFilters(filters).appendTo(el)
  .build().connect()\<close> is one call, recorded with the id, the theme and the filters.
\<close>

datatype EmbedCall =
    ClearContainer
  | Init string
  | CreateAndConnect string string DashboardFilters
  | UpdateFilters LookerDashboard DashboardFilters
  | Run LookerDashboard

text \<open>
  One mounted \<^verbatim>\<open>EmbeddedDashboard\<close>: its props, the SDK object of its context, its one
  state cell \<^verbatim>\<open>dashboard\<close>, and the calls and console lines it has produced.
\<close>

record EmbeddedDashboard =
  props_id :: string
  props_filters :: DashboardFilters
  extensionSDK :: "ExtensionSDK option"
  dashboard :: "LookerDashboard option"
  embed_calls :: "EmbedCall list"
  embed_console :: "(string \<times> error) list"

definition setupDashboard :: "LookerDashboard \<Rightarrow> EmbeddedDashboard \<Rightarrow> EmbeddedDashboard" where
  "setupDashboard dashboardInstance c = c\<lparr> dashboard := Some dashboardInstance \<rparr>"

text \<open>
  The \<^verbatim>\<open>useEffect\<close> body: \<^verbatim>\<open>if (dashboard && props.filters)\<close>. The filters prop is always an
  object, hence truthy; the test is on the handle.
\<close>

definition filtersEffect :: "EmbeddedDashboard \<Rightarrow> EmbeddedDashboard" where
  "filtersEffect c =
     (case dashboard c of
        None \<Rightarrow> c
      | Some d \<Rightarrow> c\<lparr> embed_calls := embed_calls c @ [UpdateFilters d (props_filters c), Run d] \<rparr>)"

text \<open>
  The ref callback, with the props and the SDK object of the render that created it.
  \<open>el\<close> tells whether React passed an element (and not \<^verbatim>\<open>null\<close>); the host URL is falsy
  when undefined or empty.
\<close>

definition embedCtrRef :: "bool \<Rightarrow> EmbeddedDashboard \<Rightarrow> EmbeddedDashboard" where
  "embedCtrRef el c =
     (case hostUrlOf (extensionSDK c) of
        None \<Rightarrow> c
      | Some hostUrl \<Rightarrow>
          if el \<and> hostUrl \<noteq> []
          then c\<lparr> embed_calls := embed_calls c @
                    [ClearContainer, Init hostUrl,
                     CreateAndConnect (props_id c) ''Custom'' (props_filters c)] \<rparr>
          else c)"

text \<open>The \<^verbatim>\<open>catch\<close> of the connection promise.\<close>

definition connectionError :: "error \<Rightarrow> EmbeddedDashboard \<Rightarrow> EmbeddedDashboard" where
  "connectionError err c = c\<lparr> embed_console := embed_console c @ [(''Connection error'', err)] \<rparr>"

text \<open>
  What happens to a mounted component.

  A render: the parent passes an id and either the same filters object (\<open>None\<close>) or a new
  one, and the context gives an SDK object. \<^verbatim>\<open>useCallback(..., [props.id, extensionSDK])\<close>
  returns the callback of the previous render unless the id or the SDK object differs;
  React calls a ref callback only when it is not the function of the previous render
  (the old one with \<^verbatim>\<open>null\<close>, then the new one with the element), and does so before the
  effects. \<^verbatim>\<open>useEffect(..., [dashboard, props.filters])\<close> runs after a render in which the
  handle or the filters object differs; a render by the parent does not change the handle.

  The connection promise settles: resolved, \<^verbatim>\<open>setupDashboard\<close> stores the handle and, the
  state cell having changed, the component renders again and the effect runs; rejected,
  the error is logged.
\<close>

datatype DashEvent =
    Render string "ExtensionSDK option" "DashboardFilters option"
  | ConnectResolved LookerDashboard
  | ConnectRejected error

fun dashStep :: "DashEvent \<Rightarrow> EmbeddedDashboard \<Rightarrow> EmbeddedDashboard" where
  "dashStep (Render ident sdk newFilters) c =
     (let c1 = c\<lparr> props_id := ident, extensionSDK := sdk,
                   props_filters := (case newFilters of None \<Rightarrow> props_filters c | Some f \<Rightarrow> f) \<rparr>;
          c2 = (if ident = props_id c \<and> sdk = extensionSDK c then c1
                else embedCtrRef True (embedCtrRef False c1))
      in if newFilters = None then c2 else filtersEffect c2)"
| "dashStep (ConnectResolved d) c =
     (if dashboard c = Some d then c else filtersEffect (setupDashboard d c))"
| "dashStep (ConnectRejected err) c = connectionError err c"

text \<open>Mounting: the ref callback with the element, then the effect's first run.\<close>

definition mount :: "string \<Rightarrow> DashboardFilters \<Rightarrow> ExtensionSDK option \<Rightarrow> EmbeddedDashboard" where
  "mount ident f sdk =
     filtersEffect (embedCtrRef True
       \<lparr> props_id = ident, props_filters = f, extensionSDK = sdk, dashboard = None,
         embed_calls = [], embed_console = [] \<rparr>)"

text \<open>
  A sequence of changes of the active filter set: renders with the id and the SDK object
  the component already has, each with a new filters object.
\<close>

definition filterChanges :: "string \<Rightarrow> ExtensionSDK option \<Rightarrow> DashboardFilters list \<Rightarrow> DashEvent list" where
  "filterChanges ident sdk fs = map (\<lambda>f. Render ident sdk (Some f)) fs"

fun isConnect :: "EmbedCall \<Rightarrow> bool" where
  "isConnect (CreateAndConnect i t f) = True"
| "isConnect _ = False"

section \<open>Auxiliary definitions for the proofs\<close>

text \<open>
  The bodies of the two inner loops as named functions, the invariant of the object the
  cascading effect builds, the query the effect sends for one dependent filter, and a few
  concrete query collaborators and rows used as inputs.
\<close>

definition hasValues :: "IAllFilters \<Rightarrow> string \<Rightarrow> bool" where
  "hasValues staged p = (\<exists>vs. staged p = Some vs \<and> vs \<noteq> [])"

definition pwvStep ::
    "IAllFilters \<Rightarrow> string \<Rightarrow> (string \<times> string list) list \<times> bool
       \<Rightarrow> (string \<times> string list) list \<times> bool" where
  "pwvStep staged = (\<lambda>parentName (pwv, h).
             case staged parentName of
               None \<Rightarrow> (pwv, h)
             | Some parentValues \<Rightarrow>
                 if length parentValues > 0
                 then (obj_set pwv parentName parentValues, True)
                 else (pwv, h))"

definition pwvInv :: "IAllFilters \<Rightarrow> (string \<times> string list) list \<Rightarrow> bool" where
  "pwvInv staged kvs \<longleftrightarrow>
     distinct (map fst kvs) \<and> (\<forall>(k, v) \<in> set kvs. staged k = Some v \<and> v \<noteq> [])"

definition qfStep ::
    "TabsConfig \<Rightarrow> string \<times> string list \<Rightarrow> (string \<rightharpoonup> string) \<Rightarrow> (string \<rightharpoonup> string)" where
  "qfStep cfg = (\<lambda>(parentFilterName, parentValues) qf.
                  if length parentValues > 0
                  then (case findFilter cfg parentFilterName of
                          None \<Rightarrow> qf
                        | Some parentConfig \<Rightarrow> qf(field parentConfig \<mapsto> join '','' parentValues))
                  else qf)"

definition cascadeQuery :: "TabsConfig \<Rightarrow> IAllFilters \<Rightarrow> FilterDef \<Rightarrow> InlineQuery" where
  "cascadeQuery cfg staged f =
     \<lparr> q_model = model (lookml cfg), q_view = explore (lookml cfg),
       q_fields = (case findFilter cfg (name f) of None \<Rightarrow> [] | Some fc \<Rightarrow> [field fc]),
       q_filters = queryFilters cfg
          (Some (fst (parentsWithValues staged
                   (case listens_to f of None \<Rightarrow> [] | Some ps \<Rightarrow> ps)))) \<rparr>"

definition staged0 :: IAllFilters where
  "staged0 =
     [''Country'' \<mapsto> [''USA'', ''Canada''], ''State'' \<mapsto> [''California''],
      ''City'' \<mapsto> [''Los Angeles''], ''Category'' \<mapsto> [''Jeans'']]"

definition stateFilter :: FilterDef where
  "stateFilter = \<lparr> name = ''State'', label = ''State'', field = ''users.state'',
             type = ''select_multi'', listens_to = Some [''Country''] \<rparr>"

definition sdk0 :: "ExtensionSDK option" where
  "sdk0 = Some (ExtensionSDK 0 (Some ''https://looker.example.com''))"

definition mounted0 :: EmbeddedDashboard where
  "mounted0 = mount ''nXJRwDcnj1SY3mz3uJtEJt'' [''Created Date'' \<mapsto> ''last 7 days''] sdk0"

definition emptySdk :: sdk where
  "emptySdk = (\<lambda>q. Inr [])"

definition failingSdk :: sdk where
  "failingSdk = (\<lambda>q. Inl (Error ''500''))"

definition stateRows :: "row list" where
  "stateRows =
     [ Some [''users.state'' \<mapsto> JValue ''California''],
       Some [''users.state'' \<mapsto> JNull],
       None,
       Some [''users.city'' \<mapsto> JValue ''Austin''],
       Some [''users.state'' \<mapsto> JValue ''Texas''] ]"

definition answeringSdk :: sdk where
  "answeringSdk = (\<lambda>q. Inr stateRows)"

section \<open>Facts about the dependency propagator\<close>

lemma directChildren_set: "set (directChildren cfg p) = {d. (d, p) \<in> listens cfg}"
  by (auto simp: directChildren_def listens_def split: option.splits)

lemma finite_listens: "finite (listens cfg)"
proof -
  let ?parents = "\<lambda>f. set (case listens_to f of None \<Rightarrow> [] | Some ps \<Rightarrow> ps)"
  have "listens cfg \<subseteq> (\<Union>f \<in> set (filters cfg). (\<lambda>p. (name f, p)) ` ?parents f)"
    by (auto simp: listens_def)
  moreover have "finite (\<Union>f \<in> set (filters cfg). (\<lambda>p. (name f, p)) ` ?parents f)"
    by (intro finite_UN_I finite_imageI finite_set)
  ultimately show ?thesis by (rule finite_subset)
qed

lemma mapM_all_Some:
  "\<forall>x \<in> set xs. f x \<noteq> None \<Longrightarrow> mapM f xs = Some (map (\<lambda>x. the (f x)) xs)"
  by (induction xs) auto

lemma trancl_last_step:
  "(e, n) \<in> r\<^sup>+ \<longleftrightarrow> (e, n) \<in> r \<or> (\<exists>d. (e, d) \<in> r\<^sup>+ \<and> (d, n) \<in> r)"
  by (metis tranclE trancl.intros)

text \<open>
  On an acyclic configuration the recursion is well founded (the graph is finite), so
  every call returns, and what it returns lists exactly the dependents.
\<close>

lemma getAllDependents_acyclic:
  assumes "acyclic (listens cfg)"
  shows "\<exists>ds. getAllDependents cfg n = Some ds \<and> set ds = dependents cfg n"
proof -
  have "wf (listens cfg)"
    using finite_listens assms by (rule finite_acyclic_wf)
  then show ?thesis
  proof (induction n rule: wf_induct_rule)
    case (less n)
    let ?dc = "directChildren cfg n"
    have ih: "\<And>d. d \<in> set ?dc \<Longrightarrow>
        \<exists>ds. getAllDependents cfg d = Some ds \<and> set ds = dependents cfg d"
      using less by (simp add: directChildren_set)
    then have "\<forall>d \<in> set ?dc. getAllDependents cfg d \<noteq> None" by fastforce
    then have m: "mapM (getAllDependents cfg) ?dc
        = Some (map (\<lambda>d. the (getAllDependents cfg d)) ?dc)"
      by (rule mapM_all_Some)
    let ?res = "?dc @ concat (map (\<lambda>d. the (getAllDependents cfg d)) ?dc)"
    have r: "getAllDependents cfg n = Some ?res"
      by (subst getAllDependents.simps) (simp add: m)
    have "set ?res = set ?dc \<union> (\<Union>d \<in> set ?dc. dependents cfg d)"
      using ih by fastforce
    also have "\<dots> = dependents cfg n"
      unfolding dependents_def directChildren_set
      by (auto simp: trancl_last_step [of _ n] intro: trancl_trans)
    finally show ?case using r by simp
  qed
qed

lemma not_self_dependent: "acyclic (listens cfg) \<Longrightarrow> n \<notin> dependents cfg n"
  by (auto simp: dependents_def acyclic_def)

lemma deleteAll_apply:
  "deleteAll ds m k = (if k \<in> set ds then None else m k)"
  unfolding deleteAll_def by (induction ds arbitrary: m) auto

subsection \<open>The shipped configuration\<close>

text \<open>State listens to Country; City listens to Country and State: no cycle.\<close>

lemma acyclic_TABS_CONFIG: "acyclic (listens TABS_CONFIG)"
proof (rule acyclicI_order)
  fix a b assume "(a, b) \<in> listens TABS_CONFIG"
  then show "(if b = ''Country'' then 0 else if b = ''State'' then 1 else (2::nat))
      < (if a = ''Country'' then 0 else if a = ''State'' then 1 else 2)"
    by (auto simp: listens_def TABS_CONFIG_def)
qed

lemma getAllDependents_Country:
  "getAllDependents TABS_CONFIG ''Country'' = Some [''State'', ''City'', ''City'']"
  by (simp add: getAllDependents.simps directChildren_def TABS_CONFIG_def)

lemma getAllDependents_State:
  "getAllDependents TABS_CONFIG ''State'' = Some [''City'']"
  by (simp add: getAllDependents.simps directChildren_def TABS_CONFIG_def)

lemma getAllDependents_Department:
  "getAllDependents TABS_CONFIG ''Department'' = Some []"
  by (simp add: getAllDependents.simps directChildren_def TABS_CONFIG_def)

lemma dependents_Country: "dependents TABS_CONFIG ''Country'' = {''State'', ''City''}"
  using getAllDependents_acyclic [OF acyclic_TABS_CONFIG, of "''Country''"]
  by (auto simp: getAllDependents_Country)

lemma dependents_Department: "dependents TABS_CONFIG ''Department'' = {}"
  using getAllDependents_acyclic [OF acyclic_TABS_CONFIG, of "''Department''"]
  by (auto simp: getAllDependents_Department)

section \<open>Claims about the dependency propagator\<close>

text \<open>
  Claim C10. If the \<^verbatim>\<open>listens_to\<close> graph of the configuration is acyclic (as it is for
  the shipped configuration), \<^verbatim>\<open>getAllDependents\<close> returns for every starting name, and
  the list it returns holds every direct and transitive dependent of that name (and
  nothing else).
\<close>

theorem getAllDependents_terminates_acyclic:
  assumes "acyclic (listens cfg)"
  shows "\<exists>ds. getAllDependents cfg n = Some ds \<and> set ds = dependents cfg n"
  using assms by (rule getAllDependents_acyclic)

theorem getAllDependents_terminates_acyclic_witness:
  "getAllDependents TABS_CONFIG ''Country'' = Some [''State'', ''City'', ''City'']
   \<and> dependents TABS_CONFIG ''Country'' = {''State'', ''City''}
   \<and> getAllDependents TABS_CONFIG ''State'' = Some [''City'']
   \<and> dependents TABS_CONFIG ''State'' = {''City''}"
proof -
  have c: "getAllDependents TABS_CONFIG ''Country'' = Some [''State'', ''City'', ''City'']"
    by (rule getAllDependents_Country)
  have s: "getAllDependents TABS_CONFIG ''State'' = Some [''City'']"
    by (rule getAllDependents_State)
  from getAllDependents_terminates_acyclic [OF acyclic_TABS_CONFIG, of "''Country''"] c
  have "dependents TABS_CONFIG ''Country'' = {''State'', ''City''}" by auto
  moreover
  from getAllDependents_terminates_acyclic [OF acyclic_TABS_CONFIG, of "''State''"] s
  have "dependents TABS_CONFIG ''State'' = {''City''}" by auto
  ultimately show ?thesis using c s by simp
qed

text \<open>
  Claim C1. When \<^verbatim>\<open>handleFilterChange\<close> is applied with a new selection that drops at
  least one previously selected value of the changed filter (clearing a non-empty
  selection included), the handler returns and the staged entry of every direct and
  transitive dependent of the changed filter is deleted. The configuration is the shipped
  one or any other whose \<^verbatim>\<open>listens_to\<close> graph is acyclic.
\<close>

theorem handleFilterChange_removal_clears_dependents:
  assumes "acyclic (listens cfg)"
    and "\<exists>v \<in> set (case prev n of None \<Rightarrow> [] | Some vs \<Rightarrow> vs). v \<notin> set newValues"
  shows "\<exists>s'. handleFilterChange cfg n newValues prev = Some s'
            \<and> (\<forall>d \<in> dependents cfg n. s' d = None)"
proof -
  obtain ds where ds: "getAllDependents cfg n = Some ds" "set ds = dependents cfg n"
    using getAllDependents_acyclic [OF assms(1)] by blast
  have "\<not> list_all (\<lambda>v. v \<in> set newValues) (case prev n of None \<Rightarrow> [] | Some vs \<Rightarrow> vs)"
    using assms(2) by (simp add: list_all_iff)
  then have "handleFilterChange cfg n newValues prev
      = Some (deleteAll ds (prev(n \<mapsto> newValues)))"
    by (simp add: handleFilterChange_def ds(1))
  then show ?thesis using ds(2) by (simp add: deleteAll_apply)
qed

theorem handleFilterChange_removal_clears_dependents_witness:
  "(\<exists>s'. handleFilterChange TABS_CONFIG ''Country'' [''USA''] staged0 = Some s'
      \<and> s' ''State'' = None \<and> s' ''City'' = None)
   \<and> (\<exists>s'. handleFilterChange TABS_CONFIG ''Country'' [] staged0 = Some s'
      \<and> s' ''State'' = None \<and> s' ''City'' = None)"
proof -
  have a: "\<exists>v \<in> set (case staged0 ''Country'' of None \<Rightarrow> [] | Some vs \<Rightarrow> vs). v \<notin> set [''USA'']"
    by (simp add: staged0_def)
  have b: "\<exists>v \<in> set (case staged0 ''Country'' of None \<Rightarrow> [] | Some vs \<Rightarrow> vs). v \<notin> set []"
    by (simp add: staged0_def exI [of _ "''USA''"])
  from handleFilterChange_removal_clears_dependents
    [where cfg = TABS_CONFIG and prev = staged0 and n = "''Country''"
       and newValues = "[''USA'']", OF acyclic_TABS_CONFIG a]
  have "\<exists>s'. handleFilterChange TABS_CONFIG ''Country'' [''USA''] staged0 = Some s'
      \<and> s' ''State'' = None \<and> s' ''City'' = None"
    by (simp add: dependents_Country)
  moreover
  from handleFilterChange_removal_clears_dependents
    [where cfg = TABS_CONFIG and prev = staged0 and n = "''Country''"
       and newValues = "[]", OF acyclic_TABS_CONFIG b]
  have "\<exists>s'. handleFilterChange TABS_CONFIG ''Country'' [] staged0 = Some s'
      \<and> s' ''State'' = None \<and> s' ''City'' = None"
    by (simp add: dependents_Country)
  ultimately show ?thesis by simp
qed

text \<open>
  Claim C2. When \<^verbatim>\<open>handleFilterChange\<close> is applied with a new selection that contains
  every previously selected value of the changed filter (nothing removed), the handler
  returns without computing any dependents, and every staged entry other than the changed
  filter's own is left as it was; in particular no dependent is cleared.
\<close>

theorem handleFilterChange_pure_addition_keeps_dependents:
  assumes "set (case prev n of None \<Rightarrow> [] | Some vs \<Rightarrow> vs) \<subseteq> set newValues"
  shows "\<exists>s'. handleFilterChange cfg n newValues prev = Some s'
            \<and> s' n = Some newValues
            \<and> (\<forall>d. d \<noteq> n \<longrightarrow> s' d = prev d)
            \<and> (acyclic (listens cfg) \<longrightarrow> (\<forall>d \<in> dependents cfg n. s' d = prev d))"
proof -
  have "list_all (\<lambda>v. v \<in> set newValues) (case prev n of None \<Rightarrow> [] | Some vs \<Rightarrow> vs)"
    using assms by (auto simp: list_all_iff)
  then have "handleFilterChange cfg n newValues prev = Some (prev(n \<mapsto> newValues))"
    by (simp add: handleFilterChange_def)
  moreover have "acyclic (listens cfg) \<longrightarrow>
      (\<forall>d \<in> dependents cfg n. (prev(n \<mapsto> newValues)) d = prev d)"
    using not_self_dependent [of cfg n] by auto
  ultimately show ?thesis by simp
qed

theorem handleFilterChange_pure_addition_keeps_dependents_witness:
  "\<exists>s'. handleFilterChange TABS_CONFIG ''Country'' [''Mexico'', ''USA'', ''Canada''] staged0 = Some s'
      \<and> s' ''Country'' = Some [''Mexico'', ''USA'', ''Canada'']
      \<and> s' ''State'' = Some [''California'']
      \<and> s' ''City'' = Some [''Los Angeles'']"
proof -
  have "set (case staged0 ''Country'' of None \<Rightarrow> [] | Some vs \<Rightarrow> vs)
      \<subseteq> set [''Mexico'', ''USA'', ''Canada'']"
    by (simp add: staged0_def)
  from handleFilterChange_pure_addition_keeps_dependents
    [where cfg = TABS_CONFIG and prev = staged0 and n = "''Country''"
       and newValues = "[''Mexico'', ''USA'', ''Canada'']", OF this]
  obtain s' where s':
    "handleFilterChange TABS_CONFIG ''Country'' [''Mexico'', ''USA'', ''Canada''] staged0 = Some s'"
    "s' ''Country'' = Some [''Mexico'', ''USA'', ''Canada'']"
    "\<forall>d \<in> dependents TABS_CONFIG ''Country''. s' d = staged0 d"
    using acyclic_TABS_CONFIG by (elim exE conjE impE) simp_all
  from s'(3) have "s' ''State'' = Some [''California'']" "s' ''City'' = Some [''Los Angeles'']"
    by (simp_all add: dependents_Country staged0_def)
  with s'(1,2) show ?thesis by simp
qed

text \<open>
  Claim C3. Every change applied through \<^verbatim>\<open>handleButtonGroupChange\<close>, whatever the old
  and the new value, deletes the staged entries of all direct and transitive dependents
  of the changed filter and leaves the changed filter's entry as the one-element list
  holding the new value. The configuration is the shipped one or any other whose
  \<^verbatim>\<open>listens_to\<close> graph is acyclic.
\<close>

theorem handleButtonGroupChange_clears_dependents:
  assumes "acyclic (listens cfg)"
  shows "\<exists>s'. handleButtonGroupChange cfg n v staged = Some s'
            \<and> (\<forall>d \<in> dependents cfg n. s' d = None)
            \<and> s' n = Some [v]"
proof -
  obtain ds where ds: "getAllDependents cfg n = Some ds" "set ds = dependents cfg n"
    using getAllDependents_acyclic [OF assms(1)] by blast
  have "handleButtonGroupChange cfg n v staged = Some (deleteAll ds (staged(n \<mapsto> [v])))"
    by (simp add: handleButtonGroupChange_def ds(1))
  then show ?thesis
    using ds(2) not_self_dependent [OF assms] by (simp add: deleteAll_apply)
qed

theorem handleButtonGroupChange_clears_dependents_witness:
  "(\<exists>s'. handleButtonGroupChange TABS_CONFIG ''Department'' ''Men''
            (staged0(''Department'' \<mapsto> [''Women''])) = Some s'
      \<and> s' ''Department'' = Some [''Men''])
   \<and> (\<exists>s'. handleButtonGroupChange TABS_CONFIG ''Country'' ''USA'' staged0 = Some s'
      \<and> s' ''State'' = None \<and> s' ''City'' = None \<and> s' ''Country'' = Some [''USA''])"
proof -
  from handleButtonGroupChange_clears_dependents
    [where cfg = TABS_CONFIG and n = "''Department''" and v = "''Men''"
       and staged = "staged0(''Department'' \<mapsto> [''Women''])", OF acyclic_TABS_CONFIG]
  have "\<exists>s'. handleButtonGroupChange TABS_CONFIG ''Department'' ''Men''
            (staged0(''Department'' \<mapsto> [''Women''])) = Some s'
      \<and> s' ''Department'' = Some [''Men'']"
    by (elim exE conjE) simp
  moreover
  from handleButtonGroupChange_clears_dependents
    [where cfg = TABS_CONFIG and n = "''Country''" and v = "''USA''"
       and staged = staged0, OF acyclic_TABS_CONFIG]
  have "\<exists>s'. handleButtonGroupChange TABS_CONFIG ''Country'' ''USA'' staged0 = Some s'
      \<and> s' ''State'' = None \<and> s' ''City'' = None \<and> s' ''Country'' = Some [''USA'']"
    by (simp add: dependents_Country)
  ultimately show ?thesis by simp
qed

text \<open>
  Claim C9. A call of \<^verbatim>\<open>handleFilterChange\<close> on a filter returns a staged map in which
  that filter's entry is exactly the new values and every entry whose key is neither the
  filter nor one of its direct or transitive dependents is as before; the same holds
  for \<^verbatim>\<open>handleButtonGroupChange\<close> with the one-element list of the new value. So neither
  handler touches a filter unrelated to the changed one. The configuration is the shipped
  one or any other whose \<^verbatim>\<open>listens_to\<close> graph is acyclic.
\<close>

theorem staged_change_frame:
  assumes "acyclic (listens cfg)"
  shows "(\<exists>s'. handleFilterChange cfg n newValues prev = Some s'
            \<and> s' n = Some newValues
            \<and> (\<forall>k. k \<noteq> n \<and> k \<notin> dependents cfg n \<longrightarrow> s' k = prev k))
       \<and> (\<exists>s'. handleButtonGroupChange cfg n v prev = Some s'
            \<and> s' n = Some [v]
            \<and> (\<forall>k. k \<noteq> n \<and> k \<notin> dependents cfg n \<longrightarrow> s' k = prev k))"
proof -
  obtain ds where ds: "getAllDependents cfg n = Some ds" "set ds = dependents cfg n"
    using getAllDependents_acyclic [OF assms(1)] by blast
  have n: "n \<notin> set ds" using ds(2) not_self_dependent [OF assms] by simp
  have "handleFilterChange cfg n newValues prev = Some (deleteAll ds (prev(n \<mapsto> newValues)))
      \<or> handleFilterChange cfg n newValues prev = Some (prev(n \<mapsto> newValues))"
    by (simp add: handleFilterChange_def ds(1) Let_def)
  then have a: "\<exists>s'. handleFilterChange cfg n newValues prev = Some s'
            \<and> s' n = Some newValues
            \<and> (\<forall>k. k \<noteq> n \<and> k \<notin> dependents cfg n \<longrightarrow> s' k = prev k)"
    using n ds(2) by (auto simp: deleteAll_apply)
  have "handleButtonGroupChange cfg n v prev = Some (deleteAll ds (prev(n \<mapsto> [v])))"
    by (simp add: handleButtonGroupChange_def ds(1))
  then have b: "\<exists>s'. handleButtonGroupChange cfg n v prev = Some s'
            \<and> s' n = Some [v]
            \<and> (\<forall>k. k \<noteq> n \<and> k \<notin> dependents cfg n \<longrightarrow> s' k = prev k)"
    using n ds(2) by (auto simp: deleteAll_apply)
  from a b show ?thesis by blast
qed

theorem staged_change_frame_witness:
  "(\<exists>s'. handleFilterChange TABS_CONFIG ''Country'' [''Canada''] staged0 = Some s'
      \<and> s' ''Country'' = Some [''Canada''] \<and> s' ''Category'' = Some [''Jeans''])
   \<and> (\<exists>s'. handleButtonGroupChange TABS_CONFIG ''Country'' ''Canada'' staged0 = Some s'
      \<and> s' ''Country'' = Some [''Canada''] \<and> s' ''Category'' = Some [''Jeans''])"
proof -
  have k: "''Category'' \<noteq> ''Country'' \<and> ''Category'' \<notin> dependents TABS_CONFIG ''Country''"
    by (simp add: dependents_Country)
  from staged_change_frame
    [where cfg = TABS_CONFIG and n = "''Country''" and newValues = "[''Canada'']"
       and v = "''Canada''" and prev = staged0, OF acyclic_TABS_CONFIG]
  obtain s1 s2 where
    "handleFilterChange TABS_CONFIG ''Country'' [''Canada''] staged0 = Some s1"
    "s1 ''Country'' = Some [''Canada'']" "s1 ''Category'' = staged0 ''Category''"
    "handleButtonGroupChange TABS_CONFIG ''Country'' ''Canada'' staged0 = Some s2"
    "s2 ''Country'' = Some [''Canada'']" "s2 ''Category'' = staged0 ''Category''"
    using k by (elim exE conjE) simp
  then show ?thesis by (simp add: staged0_def)
qed

section \<open>Facts about the option fetcher and the cascading effect\<close>

lemma mapM_filter_keepRow:
  "mapM (toOption fld) (filter (keepRow fld) rows) = Some (List.map_filter (toOption fld) rows)"
  by (induction rows)
     (auto simp: List.map_filter_simps keepRow_def toOption_def split: option.splits cell.splits)

lemma fetchFilterOptions_present:
  assumes "sdk = Some run" and "findFilter cfg filterName = Some fc"
  shows "fetchFilterOptions sdk cfg filterName deps st =
     (let q = \<lparr> q_model = model (lookml cfg), q_view = explore (lookml cfg),
                q_fields = [field fc], q_filters = queryFilters cfg deps \<rparr>;
          st1 = st\<lparr> issued := issued st @ [q] \<rparr>
      in case run q of
           Inl err \<Rightarrow> logFetchError filterName err st1
         | Inr result \<Rightarrow>
             st1\<lparr> filterOptions := (filterOptions st1)
                     (filterName \<mapsto> List.map_filter (toOption (field fc)) result) \<rparr>)"
  using assms
  by (simp add: fetchFilterOptions_def mapM_filter_keepRow Let_def split: sum.splits)

lemma set_obj_set: "set (obj_set kvs k v) \<subseteq> insert (k, v) (set kvs)"
  by (induction kvs) (auto split: if_splits)

lemma keys_obj_set: "fst ` set (obj_set kvs k v) = insert k (fst ` set kvs)"
  by (induction kvs k v rule: obj_set.induct) (simp_all add: insert_commute)

lemma distinct_obj_set:
  "distinct (map fst kvs) \<Longrightarrow> distinct (map fst (obj_set kvs k v))"
proof (induction kvs)
  case Nil
  then show ?case by simp
next
  case (Cons kv kvs)
  obtain k' v' where kv: "kv = (k', v')" by (cases kv)
  show ?case
  proof (cases "k' = k")
    case True
    with Cons.prems kv show ?thesis by simp
  next
    case False
    have "k' \<notin> fst ` set (obj_set kvs k v)"
      using Cons.prems kv False by (simp add: keys_obj_set)
    with Cons kv False show ?thesis by simp
  qed
qed

lemma pwvStep_inv:
  assumes "pwvInv staged acc" and "pwvStep staged p (acc, h) = (acc', h')"
  shows "pwvInv staged acc'
       \<and> fst ` set acc' = fst ` set acc \<union> {q. q = p \<and> hasValues staged p}
       \<and> (h' \<longleftrightarrow> h \<or> hasValues staged p)"
proof (cases "staged p")
  case None
  with assms show ?thesis by (auto simp: pwvStep_def hasValues_def)
next
  case (Some vs)
  show ?thesis
  proof (cases "vs = []")
    case True
    with Some assms show ?thesis by (auto simp: pwvStep_def hasValues_def)
  next
    case False
    with Some assms(2) have a: "acc' = obj_set acc p vs" "h' = True"
      by (auto simp: pwvStep_def)
    have "pwvInv staged (obj_set acc p vs)"
      using assms(1) Some False set_obj_set [of acc p vs]
      unfolding pwvInv_def by (auto simp: distinct_obj_set)
    moreover have "hasValues staged p" using Some False by (simp add: hasValues_def)
    ultimately show ?thesis using a by (auto simp: keys_obj_set)
  qed
qed

lemma pwv_fold_inv:
  assumes "pwvInv staged acc" and "fold (pwvStep staged) ps (acc, h) = (acc', h')"
  shows "pwvInv staged acc'
       \<and> fst ` set acc' = fst ` set acc \<union> {p \<in> set ps. hasValues staged p}
       \<and> (h' \<longleftrightarrow> h \<or> (\<exists>p \<in> set ps. hasValues staged p))"
  using assms
proof (induction ps arbitrary: acc h)
  case Nil
  then show ?case by simp
next
  case (Cons p ps)
  obtain acc1 h1 where s: "pwvStep staged p (acc, h) = (acc1, h1)"
    by (cases "pwvStep staged p (acc, h)")
  from pwvStep_inv [OF Cons.prems(1) s]
  have i1: "pwvInv staged acc1"
    and k1: "fst ` set acc1 = fst ` set acc \<union> {q. q = p \<and> hasValues staged p}"
    and h1: "h1 \<longleftrightarrow> h \<or> hasValues staged p" by simp_all
  from Cons.prems(2) s have "fold (pwvStep staged) ps (acc1, h1) = (acc', h')" by simp
  from Cons.IH [OF i1 this] k1 h1 show ?case by auto
qed

lemma parentsWithValues_spec:
  assumes "parentsWithValues staged ps = (pwv, has)"
  shows "pwvInv staged pwv
       \<and> fst ` set pwv = {p \<in> set ps. hasValues staged p}
       \<and> (has \<longleftrightarrow> pwv \<noteq> [])"
proof -
  have f: "fold (pwvStep staged) ps ([], False) = (pwv, has)"
    using assms by (simp add: parentsWithValues_def pwvStep_def)
  have "pwvInv staged []" by (simp add: pwvInv_def)
  from pwv_fold_inv [OF this f]
  have a: "pwvInv staged pwv" and b: "fst ` set pwv = {p \<in> set ps. hasValues staged p}"
    and c: "has \<longleftrightarrow> (\<exists>p \<in> set ps. hasValues staged p)" by simp_all
  have "pwv \<noteq> [] \<longleftrightarrow> fst ` set pwv \<noteq> {}" by simp
  with b c have "has \<longleftrightarrow> pwv \<noteq> []" by auto
  with a b show ?thesis by simp
qed

lemma qf_fold_other:
  assumes "\<forall>(k, v) \<in> set kvs. \<forall>g. findFilter cfg k = Some g \<longrightarrow> field g \<noteq> fld"
  shows "fold (qfStep cfg) kvs m fld = m fld"
  using assms
  by (induction kvs arbitrary: m) (auto simp: qfStep_def split: option.splits)

lemma qf_fold_hit:
  assumes "distinct (map fst kvs)"
    and "\<forall>(k, v) \<in> set kvs. v \<noteq> []"
    and "\<forall>k \<in> fst ` set kvs. \<forall>k' \<in> fst ` set kvs. \<forall>g g'.
           findFilter cfg k = Some g \<and> findFilter cfg k' = Some g' \<and> field g = field g' \<longrightarrow> k = k'"
    and "(p, vs) \<in> set kvs" and "findFilter cfg p = Some g"
  shows "fold (qfStep cfg) kvs m (field g) = Some (join '','' vs)"
  using assms
proof (induction kvs arbitrary: m)
  case Nil
  then show ?case by simp
next
  case (Cons kv kvs)
  obtain k v where kv: "kv = (k, v)" by (cases kv)
  show ?case
  proof (cases "(p, vs) = (k, v)")
    case True
    have "\<forall>(k', v') \<in> set kvs. \<forall>g'. findFilter cfg k' = Some g' \<longrightarrow> field g' \<noteq> field g"
    proof (clarify)
      fix k' v' g' assume a: "(k', v') \<in> set kvs" "findFilter cfg k' = Some g'" "field g' = field g"
      have "k' \<in> fst ` set (kv # kvs)" "p \<in> fst ` set (kv # kvs)"
        using a(1) Cons.prems(4) by force+
      with Cons.prems(3,5) a(2,3) have "k' = p" by metis
      with True a(1) Cons.prems(1) kv show False by force
    qed
    then have "fold (qfStep cfg) kvs (qfStep cfg kv m) (field g) = qfStep cfg kv m (field g)"
      by (rule qf_fold_other)
    moreover have "qfStep cfg kv m (field g) = Some (join '','' vs)"
      using True kv Cons.prems(2,5) by (simp add: qfStep_def)
    ultimately show ?thesis by simp
  next
    case False
    with Cons.prems(4) kv have in_rest: "(p, vs) \<in> set kvs" by auto
    have "fold (qfStep cfg) kvs (qfStep cfg kv m) (field g) = Some (join '','' vs)"
    proof (rule Cons.IH)
      show "distinct (map fst kvs)" using Cons.prems(1) by simp
      show "\<forall>(k, v) \<in> set kvs. v \<noteq> []" using Cons.prems(2) by simp
      show "\<forall>k \<in> fst ` set kvs. \<forall>k' \<in> fst ` set kvs. \<forall>g g'.
           findFilter cfg k = Some g \<and> findFilter cfg k' = Some g' \<and> field g = field g' \<longrightarrow> k = k'"
        using Cons.prems(3) by simp
      show "(p, vs) \<in> set kvs" by (rule in_rest)
      show "findFilter cfg p = Some g" by (rule Cons.prems(5))
    qed
    then show ?thesis by simp
  qed
qed

lemma qf_fold_dom:
  "dom (fold (qfStep cfg) kvs m)
     = dom m \<union> {field g | g k v. (k, v) \<in> set kvs \<and> v \<noteq> [] \<and> findFilter cfg k = Some g}"
proof (induction kvs arbitrary: m)
  case Nil
  then show ?case by simp
next
  case (Cons kv kvs)
  obtain k v where kv: "kv = (k, v)" by (cases kv)
  have "dom (qfStep cfg kv m)
      = dom m \<union> {field g | g. v \<noteq> [] \<and> findFilter cfg k = Some g}"
    by (auto simp: qfStep_def kv split: option.splits)
  moreover have "{field g | g k' v'. (k', v') \<in> set (kv # kvs) \<and> v' \<noteq> [] \<and> findFilter cfg k' = Some g}
      = {field g | g. v \<noteq> [] \<and> findFilter cfg k = Some g}
        \<union> {field g | g k' v'. (k', v') \<in> set kvs \<and> v' \<noteq> [] \<and> findFilter cfg k' = Some g}"
    unfolding kv by (simp only: set_simps) blast
  ultimately show ?case unfolding fold_simps Cons.IH by (simp add: Un_assoc)
qed

lemma queryFilters_Some: "queryFilters cfg (Some kvs) = fold (qfStep cfg) kvs Map.empty"
  by (simp add: queryFilters_def qfStep_def)

lemma fetchFilterOptions_issued:
  assumes "sdk = Some run" and "findFilter cfg filterName = Some fc"
  shows "issued (fetchFilterOptions sdk cfg filterName deps st)
     = issued st @ [\<lparr> q_model = model (lookml cfg), q_view = explore (lookml cfg),
                      q_fields = [field fc], q_filters = queryFilters cfg deps \<rparr>]"
  unfolding fetchFilterOptions_present [OF assms]
  by (simp add: Let_def logFetchError_def split: sum.splits)

lemma findFilter_member:
  "f \<in> set (filters cfg) \<Longrightarrow> \<exists>fc. findFilter cfg (name f) = Some fc"
  unfolding findFilter_def by (cases "find (\<lambda>g. name g = name f) (filters cfg)") (auto simp: find_None_iff)

lemma cascade_step_issued:
  assumes "sdk = Some run" and "f \<in> set (filters cfg)"
  shows "issued (case parentsWithValues staged (case listens_to f of None \<Rightarrow> [] | Some ps \<Rightarrow> ps) of
               (pwv, has) \<Rightarrow>
                 if has then fetchFilterOptions sdk cfg (name f) (Some pwv) s
                 else fetchFilterOptions sdk cfg (name f) None s)
       = issued s @ [cascadeQuery cfg staged f]"
proof -
  obtain pwv has where p: "parentsWithValues staged (case listens_to f of None \<Rightarrow> [] | Some ps \<Rightarrow> ps) = (pwv, has)"
    by (cases "parentsWithValues staged (case listens_to f of None \<Rightarrow> [] | Some ps \<Rightarrow> ps)")
  obtain fc where fc: "findFilter cfg (name f) = Some fc"
    using findFilter_member [OF assms(2)] by blast
  have h: "has \<longleftrightarrow> pwv \<noteq> []" using parentsWithValues_spec [OF p] by simp
  have "\<not> has \<Longrightarrow> queryFilters cfg None = queryFilters cfg (Some pwv)"
    using h by (simp add: queryFilters_def)
  then show ?thesis
    by (simp add: p fc cascadeQuery_def fetchFilterOptions_issued [OF assms(1) fc])
qed

lemma cascade_fold_issued:
  assumes "sdk = Some run" and "set fs \<subseteq> set (filters cfg)"
  shows "issued (fold (\<lambda>depFilter s.
             case parentsWithValues staged
                    (case listens_to depFilter of None \<Rightarrow> [] | Some ps \<Rightarrow> ps) of
               (pwv, hasAtLeastOneParentWithValue) \<Rightarrow>
                 if hasAtLeastOneParentWithValue
                 then fetchFilterOptions sdk cfg (name depFilter) (Some pwv) s
                 else fetchFilterOptions sdk cfg (name depFilter) None s) fs s0)
       = issued s0 @ map (cascadeQuery cfg staged) fs"
  using assms(2)
proof (induction fs arbitrary: s0)
  case Nil
  then show ?case by simp
next
  case (Cons f fs)
  from Cons.prems have f: "f \<in> set (filters cfg)" and fs: "set fs \<subseteq> set (filters cfg)" by simp_all
  show ?case
    unfolding fold_simps Cons.IH [OF fs] cascade_step_issued [OF assms(1) f]
    by simp
qed

lemma cascadeEffect_issued:
  assumes "sdk = Some run"
  shows "issued (cascadeEffect sdk cfg st)
       = issued st @ map (cascadeQuery cfg (stagedFilters st)) (dependentFilters cfg)"
  unfolding cascadeEffect_def
  by (rule cascade_fold_issued [OF assms]) (simp add: dependentFilters_def)

lemma cascadeQuery_filters:
  assumes "listens_to f = Some ps"
    and "\<forall>p \<in> set ps. \<forall>p' \<in> set ps. \<forall>g g'.
           findFilter cfg p = Some g \<and> findFilter cfg p' = Some g' \<and> field g = field g' \<longrightarrow> p = p'"
  shows "(\<forall>p \<in> set ps. \<forall>vs g.
                 staged p = Some vs \<and> vs \<noteq> [] \<and> findFilter cfg p = Some g
                 \<longrightarrow> q_filters (cascadeQuery cfg staged f) (field g) = Some (join '','' vs))
          \<and> dom (q_filters (cascadeQuery cfg staged f))
               = {field g | g p vs. p \<in> set ps \<and> staged p = Some vs \<and> vs \<noteq> []
                                  \<and> findFilter cfg p = Some g}"
proof -
  obtain pwv has where p: "parentsWithValues staged ps = (pwv, has)"
    by (cases "parentsWithValues staged ps")
  from parentsWithValues_spec [OF p]
  have inv: "pwvInv staged pwv" and keys: "fst ` set pwv = {p \<in> set ps. hasValues staged p}"
    by simp_all
  have qi: "q_filters (cascadeQuery cfg staged f) = fold (qfStep cfg) pwv Map.empty"
    using assms(1) by (simp add: cascadeQuery_def p queryFilters_Some)
  have members: "\<And>k v. (k, v) \<in> set pwv \<longleftrightarrow> k \<in> set ps \<and> staged k = Some v \<and> v \<noteq> []"
  proof
    fix k v assume a: "(k, v) \<in> set pwv"
    then have "k \<in> fst ` set pwv" by force
    with keys a inv show "k \<in> set ps \<and> staged k = Some v \<and> v \<noteq> []"
      by (auto simp: pwvInv_def)
  next
    fix k v assume a: "k \<in> set ps \<and> staged k = Some v \<and> v \<noteq> []"
    then have "k \<in> fst ` set pwv" unfolding keys by (simp add: hasValues_def)
    then obtain v' where v': "(k, v') \<in> set pwv" by auto
    with inv have "staged k = Some v'" by (auto simp: pwvInv_def)
    with a v' show "(k, v) \<in> set pwv" by simp
  qed
  have hit: "\<forall>p \<in> set ps. \<forall>vs g.
                 staged p = Some vs \<and> vs \<noteq> [] \<and> findFilter cfg p = Some g
                 \<longrightarrow> q_filters (cascadeQuery cfg staged f) (field g) = Some (join '','' vs)"
  proof (intro ballI allI impI)
    fix p vs g
    assume pin: "p \<in> set ps"
      and a: "staged p = Some vs \<and> vs \<noteq> [] \<and> findFilter cfg p = Some g"
    have "fold (qfStep cfg) pwv Map.empty (field g) = Some (join '','' vs)"
    proof (rule qf_fold_hit)
      show "distinct (map fst pwv)" using inv by (simp add: pwvInv_def)
      show "\<forall>(k, v) \<in> set pwv. v \<noteq> []" using inv by (auto simp: pwvInv_def)
      show "\<forall>k \<in> fst ` set pwv. \<forall>k' \<in> fst ` set pwv. \<forall>g g'.
           findFilter cfg k = Some g \<and> findFilter cfg k' = Some g' \<and> field g = field g' \<longrightarrow> k = k'"
        unfolding keys using assms(2) by simp
      show "(p, vs) \<in> set pwv" using pin a by (simp add: members)
      show "findFilter cfg p = Some g" using a by simp
    qed
    then show "q_filters (cascadeQuery cfg staged f) (field g) = Some (join '','' vs)"
      by (simp only: qi)
  qed
  have d: "dom (q_filters (cascadeQuery cfg staged f))
               = {field g | g p vs. p \<in> set ps \<and> staged p = Some vs \<and> vs \<noteq> []
                                  \<and> findFilter cfg p = Some g}"
    unfolding qi qf_fold_dom by (auto simp: members)
  from hit d show ?thesis by simp
qed

lemma findFilter_Country:
  "findFilter TABS_CONFIG ''Country'' = Some \<lparr> name = ''Country'', label = ''Country'',
      field = ''users.country'', type = ''select_multi'', listens_to = None \<rparr>"
  by (simp add: findFilter_def TABS_CONFIG_def)

lemma findFilter_State:
  "findFilter TABS_CONFIG ''State'' = Some \<lparr> name = ''State'', label = ''State'',
      field = ''users.state'', type = ''select_multi'', listens_to = Some [''Country''] \<rparr>"
  by (simp add: findFilter_def TABS_CONFIG_def)

lemma dependentFilters_TABS_CONFIG:
  "dependentFilters TABS_CONFIG =
     [ \<lparr> name = ''State'', label = ''State'', field = ''users.state'',
             type = ''select_multi'', listens_to = Some [''Country''] \<rparr>,
       \<lparr> name = ''City'', label = ''City'', field = ''users.city'',
             type = ''select_multi'', listens_to = Some [''Country'', ''State''] \<rparr> ]"
  by (simp add: dependentFilters_def TABS_CONFIG_def)

section \<open>Claims about the option fetcher and the cascading effect\<close>

text \<open>
  Claim C4. The effect that React runs when the staged map has changed sends, given an SDK
  handle, one option query for each filter with a non-empty \<^verbatim>\<open>listens_to\<close>, in
  configuration order. In the query for such a filter (it asks for the filter's field),
  every \<^verbatim>\<open>listens_to\<close> parent that has a non-empty staged selection and is a configured
  filter appears as its field mapped to its staged values joined by commas, nothing else
  appears, and if no parent has a non-empty staged selection the query has no filters at
  all. Parents of one filter are taken to have different fields, as in the shipped
  configuration. With staged Country = ["USA"], the State query carries
  users.country = "USA" and nothing more.
\<close>

theorem cascadeEffect_scoped_fetches:
  assumes "sdk = Some run"
    and "f \<in> set (filters cfg)" and "listens_to f = Some ps" and "ps \<noteq> []"
    and "\<forall>p \<in> set ps. \<forall>p' \<in> set ps. \<forall>g g'.
           findFilter cfg p = Some g \<and> findFilter cfg p' = Some g' \<and> field g = field g' \<longrightarrow> p = p'"
  shows "\<exists>qs i. issued (cascadeEffect sdk cfg st) = issued st @ qs
          \<and> length qs = length (dependentFilters cfg)
          \<and> i < length qs \<and> dependentFilters cfg ! i = f
          \<and> q_model (qs ! i) = model (lookml cfg) \<and> q_view (qs ! i) = explore (lookml cfg)
          \<and> (\<exists>fc. findFilter cfg (name f) = Some fc \<and> q_fields (qs ! i) = [field fc])
          \<and> (\<forall>p \<in> set ps. \<forall>vs g.
                 stagedFilters st p = Some vs \<and> vs \<noteq> [] \<and> findFilter cfg p = Some g
                 \<longrightarrow> q_filters (qs ! i) (field g) = Some (join '','' vs))
          \<and> dom (q_filters (qs ! i))
               = {field g | g p vs. p \<in> set ps \<and> stagedFilters st p = Some vs \<and> vs \<noteq> []
                                  \<and> findFilter cfg p = Some g}
          \<and> ((\<forall>p \<in> set ps. stagedFilters st p = None \<or> stagedFilters st p = Some [])
                 \<longrightarrow> q_filters (qs ! i) = Map.empty)"
proof -
  let ?staged = "stagedFilters st"
  let ?qs = "map (cascadeQuery cfg ?staged) (dependentFilters cfg)"
  have "f \<in> set (dependentFilters cfg)"
    using assms(2,3,4) by (simp add: dependentFilters_def)
  then obtain i where i: "i < length (dependentFilters cfg)" "dependentFilters cfg ! i = f"
    by (auto simp: in_set_conv_nth)
  have qi: "?qs ! i = cascadeQuery cfg ?staged f" using i by simp
  obtain fc where fc: "findFilter cfg (name f) = Some fc"
    using findFilter_member [OF assms(2)] by blast
  have hdr: "q_model (?qs ! i) = model (lookml cfg)" "q_view (?qs ! i) = explore (lookml cfg)"
    "q_fields (?qs ! i) = [field fc]"
    unfolding qi by (simp_all add: cascadeQuery_def fc)
  from cascadeQuery_filters [OF assms(3,5), of ?staged]
  have hit: "\<forall>p \<in> set ps. \<forall>vs g.
                 ?staged p = Some vs \<and> vs \<noteq> [] \<and> findFilter cfg p = Some g
                 \<longrightarrow> q_filters (?qs ! i) (field g) = Some (join '','' vs)"
    and d: "dom (q_filters (?qs ! i))
               = {field g | g p vs. p \<in> set ps \<and> ?staged p = Some vs \<and> vs \<noteq> []
                                  \<and> findFilter cfg p = Some g}"
    unfolding qi by simp_all
  have e: "(\<forall>p \<in> set ps. ?staged p = None \<or> ?staged p = Some [])
                 \<longrightarrow> q_filters (?qs ! i) = Map.empty"
  proof
    assume "\<forall>p \<in> set ps. ?staged p = None \<or> ?staged p = Some []"
    then have "dom (q_filters (?qs ! i)) = {}" unfolding d by auto
    then show "q_filters (?qs ! i) = Map.empty" by simp
  qed
  have iss: "issued (cascadeEffect sdk cfg st) = issued st @ ?qs"
    by (rule cascadeEffect_issued [OF assms(1)])
  have len: "length ?qs = length (dependentFilters cfg)" by simp
  show ?thesis
  proof (intro exI conjI)
    show "issued (cascadeEffect sdk cfg st) = issued st @ ?qs" by (rule iss)
    show "length ?qs = length (dependentFilters cfg)" by (rule len)
    show "i < length ?qs" using i(1) by simp
    show "dependentFilters cfg ! i = f" by (rule i(2))
    show "q_model (?qs ! i) = model (lookml cfg)" by (rule hdr(1))
    show "q_view (?qs ! i) = explore (lookml cfg)" by (rule hdr(2))
    show "findFilter cfg (name f) = Some fc" by (rule fc)
    show "q_fields (?qs ! i) = [field fc]" by (rule hdr(3))
    show "\<forall>p \<in> set ps. \<forall>vs g.
                 ?staged p = Some vs \<and> vs \<noteq> [] \<and> findFilter cfg p = Some g
                 \<longrightarrow> q_filters (?qs ! i) (field g) = Some (join '','' vs)" by (rule hit)
    show "dom (q_filters (?qs ! i))
               = {field g | g p vs. p \<in> set ps \<and> ?staged p = Some vs \<and> vs \<noteq> []
                                  \<and> findFilter cfg p = Some g}" by (rule d)
    show "(\<forall>p \<in> set ps. ?staged p = None \<or> ?staged p = Some [])
                 \<longrightarrow> q_filters (?qs ! i) = Map.empty" by (rule e)
  qed
qed

theorem cascadeEffect_scoped_fetches_witness:
  "(\<exists>q \<in> set (issued (cascadeEffect (Some emptySdk) TABS_CONFIG
       (initialState\<lparr> stagedFilters := [''Country'' \<mapsto> [''USA'']] \<rparr>))).
       q_fields q = [''users.state''] \<and> q_filters q ''users.country'' = Some ''USA''
     \<and> dom (q_filters q) = {''users.country''})
   \<and> (\<exists>q \<in> set (issued (cascadeEffect (Some emptySdk) TABS_CONFIG
       (initialState\<lparr> stagedFilters := [''Category'' \<mapsto> [''Jeans'']] \<rparr>))).
       q_fields q = [''users.state''] \<and> q_filters q = Map.empty)"
proof -
  let ?usa = "initialState\<lparr> stagedFilters := [''Country'' \<mapsto> [''USA'']] \<rparr>"
  let ?cat = "initialState\<lparr> stagedFilters := [''Category'' \<mapsto> [''Jeans'']] \<rparr>"
  have m: "stateFilter \<in> set (filters TABS_CONFIG)"
    and l: "listens_to stateFilter = Some [''Country'']"
    and n: "[''Country''] \<noteq> []"
    by (simp_all add: stateFilter_def TABS_CONFIG_def)
  have inj: "\<forall>p \<in> set [''Country'']. \<forall>p' \<in> set [''Country'']. \<forall>g g'.
           findFilter TABS_CONFIG p = Some g \<and> findFilter TABS_CONFIG p' = Some g' \<and> field g = field g'
           \<longrightarrow> p = p'"
    by simp
  have nm: "name stateFilter = ''State''" by (simp add: stateFilter_def)
  from cascadeEffect_scoped_fetches [where sdk = "Some emptySdk" and run = emptySdk and cfg = TABS_CONFIG
        and f = stateFilter and ps = "[''Country'']" and st = ?usa, OF refl m l n inj]
  obtain qs i fc where qs: "issued (cascadeEffect (Some emptySdk) TABS_CONFIG ?usa) = issued ?usa @ qs"
    "i < length qs"
    "findFilter TABS_CONFIG (name stateFilter) = Some fc \<and> q_fields (qs ! i) = [field fc]"
    "\<forall>p \<in> set [''Country'']. \<forall>vs g.
        stagedFilters ?usa p = Some vs \<and> vs \<noteq> [] \<and> findFilter TABS_CONFIG p = Some g
        \<longrightarrow> q_filters (qs ! i) (field g) = Some (join '','' vs)"
    "dom (q_filters (qs ! i))
       = {field g | g p vs. p \<in> set [''Country''] \<and> stagedFilters ?usa p = Some vs \<and> vs \<noteq> []
                          \<and> findFilter TABS_CONFIG p = Some g}"
    by (elim exE conjE) simp
  have "qs ! i \<in> set (issued (cascadeEffect (Some emptySdk) TABS_CONFIG ?usa))"
    using qs(1,2) by simp
  moreover have "q_fields (qs ! i) = [''users.state'']"
    using qs(3) by (auto simp: nm findFilter_State)
  moreover have "q_filters (qs ! i) ''users.country'' = Some ''USA''"
    using qs(4) by (simp add: findFilter_Country)
  moreover have "dom (q_filters (qs ! i)) = {''users.country''}"
    unfolding qs(5) by (simp add: findFilter_Country)
  ultimately have a: "\<exists>q \<in> set (issued (cascadeEffect (Some emptySdk) TABS_CONFIG ?usa)).
       q_fields q = [''users.state''] \<and> q_filters q ''users.country'' = Some ''USA''
     \<and> dom (q_filters q) = {''users.country''}"
    by (intro bexI [of _ "qs ! i"] conjI)
  from cascadeEffect_scoped_fetches [where sdk = "Some emptySdk" and run = emptySdk and cfg = TABS_CONFIG
        and f = stateFilter and ps = "[''Country'']" and st = ?cat, OF refl m l n inj]
  obtain qs' j fc' where qs': "issued (cascadeEffect (Some emptySdk) TABS_CONFIG ?cat) = issued ?cat @ qs'"
    "j < length qs'"
    "findFilter TABS_CONFIG (name stateFilter) = Some fc' \<and> q_fields (qs' ! j) = [field fc']"
    "(\<forall>p \<in> set [''Country'']. stagedFilters ?cat p = None \<or> stagedFilters ?cat p = Some [])
        \<longrightarrow> q_filters (qs' ! j) = Map.empty"
    by (elim exE conjE) simp
  have "qs' ! j \<in> set (issued (cascadeEffect (Some emptySdk) TABS_CONFIG ?cat))"
    using qs'(1,2) by simp
  moreover have "q_fields (qs' ! j) = [''users.state'']"
    using qs'(3) by (auto simp: nm findFilter_State)
  moreover have "q_filters (qs' ! j) = Map.empty"
    using qs'(4) by simp
  ultimately have b: "\<exists>q \<in> set (issued (cascadeEffect (Some emptySdk) TABS_CONFIG ?cat)).
       q_fields q = [''users.state''] \<and> q_filters q = Map.empty"
    by (intro bexI [of _ "qs' ! j"] conjI)
  from a b show ?thesis by (rule conjI)
qed

text \<open>
  Claim C5. A fetch of \<^verbatim>\<open>fetchFilterOptions\<close> (the filter is configured and there is an SDK
  handle) sends exactly one query. If the query fails, the error is written to the
  console with the filter's name and the map of filter options is exactly as before: no
  second query is sent. If it succeeds, the filter's options become the list, in row
  order, of pairs whose value and label are both the string form of the row's cell for
  the filter's field, taken from the rows that have that cell and whose cell is not null;
  nothing is logged.
\<close>

theorem fetchFilterOptions_outcome:
  assumes "sdk = Some run" and "findFilter cfg filterName = Some fc"
    and "q = \<lparr> q_model = model (lookml cfg), q_view = explore (lookml cfg),
                q_fields = [field fc], q_filters = queryFilters cfg deps \<rparr>"
    and "st' = fetchFilterOptions sdk cfg filterName deps st"
  shows "issued st' = issued st @ [q]
       \<and> (\<forall>err. run q = Inl err \<longrightarrow>
             filterOptions st' = filterOptions st
           \<and> console st' = console st @ [(''Error fetching options for filter: '' @ filterName, err)])
       \<and> (\<forall>rows. run q = Inr rows \<longrightarrow>
             filterOptions st' = (filterOptions st)
               (filterName \<mapsto> List.map_filter
                  (\<lambda>r. case r of None \<Rightarrow> None
                       | Some cells \<Rightarrow> (case cells (field fc) of
                            Some (JValue s) \<Rightarrow> Some \<lparr> opt_value = s, opt_label = s \<rparr>
                          | _ \<Rightarrow> None)) rows)
           \<and> console st' = console st)"
proof -
  have e: "(\<lambda>r. case r of None \<Rightarrow> None
                       | Some cells \<Rightarrow> (case cells (field fc) of
                            Some (JValue s) \<Rightarrow> Some \<lparr> opt_value = s, opt_label = s \<rparr>
                          | _ \<Rightarrow> None)) = toOption (field fc)"
    by (auto simp: toOption_def fun_eq_iff)
  show ?thesis
    unfolding e assms(4) fetchFilterOptions_present [OF assms(1,2)] assms(3) [symmetric]
    by (simp add: Let_def logFetchError_def split: sum.splits)
qed

theorem fetchFilterOptions_outcome_witness:
  "filterOptions (fetchFilterOptions (Some failingSdk) TABS_CONFIG ''State''
       (Some [(''Country'', [''USA''])]) initialState) = filterOptions initialState
   \<and> console (fetchFilterOptions (Some failingSdk) TABS_CONFIG ''State''
       (Some [(''Country'', [''USA''])]) initialState)
       = [(''Error fetching options for filter: State'', Error ''500'')]
   \<and> length (issued (fetchFilterOptions (Some failingSdk) TABS_CONFIG ''State''
       (Some [(''Country'', [''USA''])]) initialState)) = 1
   \<and> filterOptions (fetchFilterOptions (Some answeringSdk) TABS_CONFIG ''State''
       (Some [(''Country'', [''USA''])]) initialState) ''State''
       = Some [ \<lparr> opt_value = ''California'', opt_label = ''California'' \<rparr>,
                \<lparr> opt_value = ''Texas'', opt_label = ''Texas'' \<rparr> ]"
proof -
  let ?deps = "Some [(''Country'', [''USA''])]"
  from fetchFilterOptions_outcome [where sdk = "Some failingSdk" and run = failingSdk and cfg = TABS_CONFIG
        and filterName = "''State''" and deps = ?deps and st = initialState,
        OF refl findFilter_State refl refl]
  have a: "filterOptions (fetchFilterOptions (Some failingSdk) TABS_CONFIG ''State'' ?deps initialState)
        = filterOptions initialState"
    and b: "console (fetchFilterOptions (Some failingSdk) TABS_CONFIG ''State'' ?deps initialState)
       = [(''Error fetching options for filter: State'', Error ''500'')]"
    and c: "length (issued (fetchFilterOptions (Some failingSdk) TABS_CONFIG ''State'' ?deps initialState)) = 1"
    by (simp_all add: failingSdk_def initialState_def)
  from fetchFilterOptions_outcome [where sdk = "Some answeringSdk" and run = answeringSdk and cfg = TABS_CONFIG
        and filterName = "''State''" and deps = ?deps and st = initialState,
        OF refl findFilter_State refl refl]
  have d: "filterOptions (fetchFilterOptions (Some answeringSdk) TABS_CONFIG ''State'' ?deps initialState) ''State''
       = Some [ \<lparr> opt_value = ''California'', opt_label = ''California'' \<rparr>,
                \<lparr> opt_value = ''Texas'', opt_label = ''Texas'' \<rparr> ]"
    by (simp add: answeringSdk_def stateRows_def List.map_filter_simps)
  from a b c d show ?thesis by simp
qed

section \<open>Facts about the active filters\<close>

lemma activeFilters_logFetchError [simp]:
  "activeFilters (logFetchError n e st) = activeFilters st"
  by (simp add: logFetchError_def)

lemma activeFilters_fetchFilterOptions:
  "activeFilters (fetchFilterOptions sdk cfg n deps st) = activeFilters st"
  by (simp add: fetchFilterOptions_def Let_def split: option.splits sum.splits)

lemma activeFilters_cascadeEffect:
  "activeFilters (cascadeEffect sdk cfg st) = activeFilters st"
proof -
  have "activeFilters (fold (\<lambda>depFilter s.
             case parentsWithValues staged
                    (case listens_to depFilter of None \<Rightarrow> [] | Some ps \<Rightarrow> ps) of
               (pwv, hasAtLeastOneParentWithValue) \<Rightarrow>
                 if hasAtLeastOneParentWithValue
                 then fetchFilterOptions sdk cfg (name depFilter) (Some pwv) s
                 else fetchFilterOptions sdk cfg (name depFilter) None s) fs s0)
       = activeFilters s0" for staged fs s0
    by (induction fs arbitrary: s0)
       (simp_all add: activeFilters_fetchFilterOptions split: prod.splits)
  then show ?thesis by (simp add: cascadeEffect_def)
qed

lemma activeFilters_initialLoadEffect:
  "activeFilters (initialLoadEffect sdk cfg st)
     = (if sdk = None then activeFilters st
        else [date_name (date_filter cfg) \<mapsto> [''last 7 days'']])"
  by (simp add: initialLoadEffect_def fetchInitialOptions_def Let_def split: option.splits)

lemma activeFilters_handleUpdateClick:
  "activeFilters (handleUpdateClick cfg st)
     = (stagedFilters st)
         (date_name (date_filter cfg) \<mapsto>
            (if dateFilterString (dateRange st) \<noteq> [] then [dateFilterString (dateRange st)]
             else []))"
  by (simp add: handleUpdateClick_def)

lemma dateFilterString_default: "dateFilterString (Preset ''last'' 7 ''days'') = ''last 7 days''"
  by (simp add: dateFilterString_def int_toString_def nat_toString.simps)

section \<open>Claims about the commit and reset actions\<close>

text \<open>
  Claim C6, as stated: the active filter map changes only through the Update handler.
  This fails on the first effect of the component: once the initial options have been
  fetched it sets the active map to the default date entry, with no user action.
\<close>

theorem activeFilters_changes_only_on_update_or_initial_load_counterexample:
  "map_option activeFilters (tabsStep (Some emptySdk) TABS_CONFIG InitialLoad initialState)
     = Some [''Created Date'' \<mapsto> [''last 7 days'']]
   \<and> map_option activeFilters (tabsStep (Some emptySdk) TABS_CONFIG InitialLoad initialState)
     \<noteq> Some (activeFilters initialState)
   \<and> InitialLoad \<noteq> UpdateClick"
  by (simp add: activeFilters_initialLoadEffect TABS_CONFIG_def initialState_def)

text \<open>
  Claim C6, amended. A step of the component leaves the active filter map as it was,
  unless it is the Update handler, which makes it the staged map with the formatted
  date-range entry added (an empty list when there is no date string), or the
  initial-load effect with an SDK handle, which makes it the single default entry
  "last 7 days" under the date filter's name. Changes of the staged filters, the
  cascading fetches, Reset and the choice of a date range do not touch it.
\<close>

theorem activeFilters_changes_only_on_update_or_initial_load:
  assumes "tabsStep sdk cfg ev st = Some st'"
  shows "activeFilters st' =
     (case ev of
        UpdateClick \<Rightarrow>
          (stagedFilters st)
            (date_name (date_filter cfg) \<mapsto>
               (if dateFilterString (dateRange st) \<noteq> [] then [dateFilterString (dateRange st)]
                else []))
      | InitialLoad \<Rightarrow>
          (if sdk = None then activeFilters st
           else [date_name (date_filter cfg) \<mapsto> [''last 7 days'']])
      | _ \<Rightarrow> activeFilters st)"
  using assms
  by (cases ev)
     (auto simp: activeFilters_initialLoadEffect activeFilters_cascadeEffect
        activeFilters_handleUpdateClick handleResetClick_def)

theorem activeFilters_changes_only_on_update_or_initial_load_witness:
  "activeFilters (handleUpdateClick TABS_CONFIG (initialState\<lparr> stagedFilters := staged0 \<rparr>))
       ''Created Date'' = Some [''last 7 days'']
   \<and> activeFilters (handleUpdateClick TABS_CONFIG (initialState\<lparr> stagedFilters := staged0 \<rparr>))
       ''Country'' = Some [''USA'', ''Canada'']
   \<and> map_option activeFilters
       (tabsStep (Some emptySdk) TABS_CONFIG (FilterChange ''Country'' [])
          (initialState\<lparr> stagedFilters := staged0 \<rparr>)) = Some Map.empty
   \<and> activeFilters (handleResetClick (handleUpdateClick TABS_CONFIG
         (initialState\<lparr> stagedFilters := staged0 \<rparr>))) ''Country'' = Some [''USA'', ''Canada'']"
proof -
  let ?st = "initialState\<lparr> stagedFilters := staged0 \<rparr>"
  have u: "tabsStep None TABS_CONFIG UpdateClick ?st = Some (handleUpdateClick TABS_CONFIG ?st)"
    by simp
  have a: "activeFilters (handleUpdateClick TABS_CONFIG ?st)
      = staged0(''Created Date'' \<mapsto> [''last 7 days''])"
    using activeFilters_changes_only_on_update_or_initial_load [OF u]
    by (simp add: dateFilterString_default initialState_def TABS_CONFIG_def)
  obtain s' where f: "tabsStep (Some emptySdk) TABS_CONFIG (FilterChange ''Country'' []) ?st = Some s'"
    by (auto simp: handleFilterChange_def staged0_def getAllDependents_Country list_all_iff)
  have b: "activeFilters s' = Map.empty"
    using activeFilters_changes_only_on_update_or_initial_load [OF f] by (simp add: initialState_def)
  have r: "tabsStep None TABS_CONFIG ResetClick (handleUpdateClick TABS_CONFIG ?st)
      = Some (handleResetClick (handleUpdateClick TABS_CONFIG ?st))"
    by simp
  have c: "activeFilters (handleResetClick (handleUpdateClick TABS_CONFIG ?st))
      = activeFilters (handleUpdateClick TABS_CONFIG ?st)"
    using activeFilters_changes_only_on_update_or_initial_load [OF r] by simp
  show ?thesis unfolding c f a using b by (simp add: staged0_def)
qed

text \<open>
  Claim C7. Whatever the staged map and the date range were, the Reset handler leaves the
  staged map empty and the date range at the default \<^verbatim>\<open>{type: "last", value: 7, unit:
  "days"}\<close>; it changes nothing else.
\<close>

theorem handleResetClick_resets:
  "stagedFilters (handleResetClick st) = Map.empty
   \<and> dateRange (handleResetClick st) = Preset ''last'' 7 ''days''
   \<and> tabsStep sdk cfg ResetClick st = Some (handleResetClick st)
   \<and> activeFilters (handleResetClick st) = activeFilters st
   \<and> filterOptions (handleResetClick st) = filterOptions st"
  by (simp add: handleResetClick_def)

theorem handleResetClick_resets_witness:
  "stagedFilters (handleResetClick
       (initialState\<lparr> stagedFilters := staged0, dateRange := Preset ''last'' 30 ''days'' \<rparr>))
       ''Country'' = None
   \<and> dateRange (handleResetClick
       (initialState\<lparr> stagedFilters := staged0, dateRange := Preset ''last'' 30 ''days'' \<rparr>))
       = Preset ''last'' 7 ''days''"
  using handleResetClick_resets
    [of "initialState\<lparr> stagedFilters := staged0, dateRange := Preset ''last'' 30 ''days'' \<rparr>"]
  by simp

section \<open>Facts about the dashboard embedder\<close>

lemma mount_state:
  assumes "hostUrlOf sdk = Some url" and "url \<noteq> []"
  shows "embed_calls (mount ident f0 sdk) = [ClearContainer, Init url, CreateAndConnect ident ''Custom'' f0]"
    and "dashboard (mount ident f0 sdk) = None"
    and "props_id (mount ident f0 sdk) = ident"
    and "extensionSDK (mount ident f0 sdk) = sdk"
    and "props_filters (mount ident f0 sdk) = f0"
    and "embed_console (mount ident f0 sdk) = []"
  using assms by (simp_all add: mount_def embedCtrRef_def filtersEffect_def)

lemma filterChanges_pending:
  assumes "dashboard c = None" and "props_id c = ident" and "extensionSDK c = sdk"
  shows "embed_calls (fold dashStep (filterChanges ident sdk fs) c) = embed_calls c
       \<and> dashboard (fold dashStep (filterChanges ident sdk fs) c) = None
       \<and> props_id (fold dashStep (filterChanges ident sdk fs) c) = ident
       \<and> extensionSDK (fold dashStep (filterChanges ident sdk fs) c) = sdk
       \<and> props_filters (fold dashStep (filterChanges ident sdk fs) c) = last (props_filters c # fs)
       \<and> embed_console (fold dashStep (filterChanges ident sdk fs) c) = embed_console c"
  using assms
proof (induction fs arbitrary: c)
  case Nil
  then show ?case by (simp add: filterChanges_def)
next
  case (Cons f fs)
  let ?c' = "dashStep (Render ident sdk (Some f)) c"
  have s: "embed_calls ?c' = embed_calls c" "dashboard ?c' = None" "props_id ?c' = ident"
    "extensionSDK ?c' = sdk" "props_filters ?c' = f" "embed_console ?c' = embed_console c"
    using Cons.prems by (simp_all add: filtersEffect_def Let_def)
  have f: "fold dashStep (filterChanges ident sdk (f # fs)) c
      = fold dashStep (filterChanges ident sdk fs) ?c'"
    by (simp add: filterChanges_def)
  from Cons.IH [OF s(2,3,4)] show ?case unfolding f s by simp
qed

lemma filterChanges_connected:
  assumes "dashboard c = Some d" and "props_id c = ident" and "extensionSDK c = sdk"
  shows "embed_calls (fold dashStep (filterChanges ident sdk fs) c)
           = embed_calls c @ concat (map (\<lambda>f. [UpdateFilters d f, Run d]) fs)
       \<and> dashboard (fold dashStep (filterChanges ident sdk fs) c) = Some d
       \<and> embed_console (fold dashStep (filterChanges ident sdk fs) c) = embed_console c"
  using assms
proof (induction fs arbitrary: c)
  case Nil
  then show ?case by (simp add: filterChanges_def)
next
  case (Cons f fs)
  let ?c' = "dashStep (Render ident sdk (Some f)) c"
  have s: "embed_calls ?c' = embed_calls c @ [UpdateFilters d f, Run d]" "dashboard ?c' = Some d"
    "props_id ?c' = ident" "extensionSDK ?c' = sdk" "embed_console ?c' = embed_console c"
    using Cons.prems by (simp_all add: filtersEffect_def Let_def)
  have f: "fold dashStep (filterChanges ident sdk (f # fs)) c
      = fold dashStep (filterChanges ident sdk fs) ?c'"
    by (simp add: filterChanges_def)
  from Cons.IH [OF s(2,3,4)] show ?case unfolding f s by simp
qed

lemma connectResolved_pending:
  assumes "dashboard c = None"
  shows "embed_calls (dashStep (ConnectResolved d) c)
           = embed_calls c @ [UpdateFilters d (props_filters c), Run d]"
    and "dashboard (dashStep (ConnectResolved d) c) = Some d"
    and "props_id (dashStep (ConnectResolved d) c) = props_id c"
    and "extensionSDK (dashStep (ConnectResolved d) c) = extensionSDK c"
    and "embed_console (dashStep (ConnectResolved d) c) = embed_console c"
  using assms by (simp_all add: filtersEffect_def setupDashboard_def)

lemma connectRejected_state:
  shows "embed_calls (dashStep (ConnectRejected err) c) = embed_calls c"
    and "dashboard (dashStep (ConnectRejected err) c) = dashboard c"
    and "props_id (dashStep (ConnectRejected err) c) = props_id c"
    and "extensionSDK (dashStep (ConnectRejected err) c) = extensionSDK c"
    and "embed_console (dashStep (ConnectRejected err) c)
           = embed_console c @ [(''Connection error'', err)]"
  by (simp_all add: connectionError_def)

text \<open>
  By contrast, a render with another id does connect again: that the connection is kept
  over filter changes comes from the dependency array of the ref callback.
\<close>

lemma rerender_new_id_reconnects:
  assumes "hostUrlOf sdk = Some url" and "url \<noteq> []" and "ident' \<noteq> props_id c"
  shows "embed_calls (dashStep (Render ident' sdk None) c)
     = embed_calls c @ [ClearContainer, Init url, CreateAndConnect ident' ''Custom'' (props_filters c)]"
  using assms by (simp add: embedCtrRef_def Let_def)

section \<open>Claims about the dashboard embedder\<close>

text \<open>
  Claim C8, as stated: every change of the active filter set after the mount is applied
  by \<^verbatim>\<open>updateFilters\<close> followed by \<^verbatim>\<open>run\<close> on the connection handle. This fails where
  there is no handle. After a rejected connection a filter change makes no call at all;
  and of two filter changes made while the connection is pending, the first is never
  sent: when the connection resolves, only the filters current at that moment are.
\<close>

theorem embedded_dashboard_connects_once_counterexample:
  "embed_calls (fold dashStep
       [ConnectRejected (Error ''refused''),
        Render ''nXJRwDcnj1SY3mz3uJtEJt'' sdk0 (Some [''Country'' \<mapsto> ''USA''])] mounted0)
     = [ClearContainer, Init ''https://looker.example.com'',
        CreateAndConnect ''nXJRwDcnj1SY3mz3uJtEJt'' ''Custom'' [''Created Date'' \<mapsto> ''last 7 days'']]
   \<and> embed_calls (fold dashStep
       [Render ''nXJRwDcnj1SY3mz3uJtEJt'' sdk0 (Some [''Country'' \<mapsto> ''USA'']),
        Render ''nXJRwDcnj1SY3mz3uJtEJt'' sdk0 (Some [''Country'' \<mapsto> ''Canada'']),
        ConnectResolved (LookerDashboard 7)] mounted0)
     = [ClearContainer, Init ''https://looker.example.com'',
        CreateAndConnect ''nXJRwDcnj1SY3mz3uJtEJt'' ''Custom'' [''Created Date'' \<mapsto> ''last 7 days''],
        UpdateFilters (LookerDashboard 7) [''Country'' \<mapsto> ''Canada''],
        Run (LookerDashboard 7)]"
  by (simp add: mounted0_def sdk0_def mount_def hostUrlOf_def embedCtrRef_def filtersEffect_def
        setupDashboard_def connectionError_def Let_def)

text \<open>
  Claim C8, amended. A mounted \<^verbatim>\<open>EmbeddedDashboard\<close> whose element and host URL are
  available creates its connection once, at mount, with the filters it has then, and no
  sequence of filter changes creates another. Filter changes made while the connection
  is pending make no call. When the connection resolves to a handle, the filters current
  at that moment are sent by \<^verbatim>\<open>updateFilters\<close> followed by \<^verbatim>\<open>run\<close> on that handle, and
  every later filter change is sent the same way on the same handle, in order. When the
  connection is rejected, one line is written to the console, nothing is retried, and
  later filter changes make no call.
\<close>

theorem embedded_dashboard_connects_once:
  assumes "hostUrlOf sdk = Some url" and "url \<noteq> []"
    and "c1 = fold dashStep (filterChanges ident sdk pending) (mount ident f0 sdk)"
    and "connected = fold dashStep (ConnectResolved d # filterChanges ident sdk later) c1"
    and "failed = fold dashStep (ConnectRejected err # filterChanges ident sdk later) c1"
  shows "embed_calls c1 = [ClearContainer, Init url, CreateAndConnect ident ''Custom'' f0]
       \<and> dashboard c1 = None
       \<and> embed_calls connected
           = [ClearContainer, Init url, CreateAndConnect ident ''Custom'' f0]
             @ [UpdateFilters d (last (f0 # pending)), Run d]
             @ concat (map (\<lambda>f. [UpdateFilters d f, Run d]) later)
       \<and> dashboard connected = Some d
       \<and> embed_console connected = []
       \<and> filter isConnect (embed_calls connected) = [CreateAndConnect ident ''Custom'' f0]
       \<and> embed_calls failed = [ClearContainer, Init url, CreateAndConnect ident ''Custom'' f0]
       \<and> dashboard failed = None
       \<and> embed_console failed = [(''Connection error'', err)]"
proof -
  let ?m = "mount ident f0 sdk"
  note m = mount_state [OF assms(1,2), of ident f0]
  from filterChanges_pending [OF m(2,3,4), of pending]
  have p: "embed_calls c1 = [ClearContainer, Init url, CreateAndConnect ident ''Custom'' f0]"
    "dashboard c1 = None" "props_id c1 = ident" "extensionSDK c1 = sdk"
    "props_filters c1 = last (f0 # pending)" "embed_console c1 = []"
    unfolding assms(3) m by simp_all
  let ?r = "dashStep (ConnectResolved d) c1"
  note r = connectResolved_pending [OF p(2), of d]
  have r': "dashboard ?r = Some d" "props_id ?r = ident" "extensionSDK ?r = sdk"
    using r p by simp_all
  have c: "connected = fold dashStep (filterChanges ident sdk later) ?r"
    unfolding assms(4) by simp
  from filterChanges_connected [OF r', of later]
  have cc: "embed_calls connected
           = [ClearContainer, Init url, CreateAndConnect ident ''Custom'' f0]
             @ [UpdateFilters d (last (f0 # pending)), Run d]
             @ concat (map (\<lambda>f. [UpdateFilters d f, Run d]) later)"
    "dashboard connected = Some d" "embed_console connected = []"
    unfolding c r p by simp_all
  have "filter isConnect (concat (map (\<lambda>f. [UpdateFilters d f, Run d]) later)) = []"
    by (induction later) simp_all
  then have ci: "filter isConnect (embed_calls connected) = [CreateAndConnect ident ''Custom'' f0]"
    unfolding cc(1) by simp
  let ?j = "dashStep (ConnectRejected err) c1"
  note j = connectRejected_state [of err c1]
  have j': "dashboard ?j = None" "props_id ?j = ident" "extensionSDK ?j = sdk"
    using j p by simp_all
  have f: "failed = fold dashStep (filterChanges ident sdk later) ?j"
    unfolding assms(5) by simp
  from filterChanges_pending [OF j', of later]
  have ff: "embed_calls failed = [ClearContainer, Init url, CreateAndConnect ident ''Custom'' f0]"
    "dashboard failed = None" "embed_console failed = [(''Connection error'', err)]"
    unfolding f j p by simp_all
  from p(1,2) cc ci ff show ?thesis by simp
qed

theorem embedded_dashboard_connects_once_witness:
  "embed_calls (fold dashStep
       (ConnectResolved (LookerDashboard 7)
          # filterChanges ''nXJRwDcnj1SY3mz3uJtEJt'' sdk0
              [[''Country'' \<mapsto> ''USA''], [''Country'' \<mapsto> ''USA,Canada'']])
       (fold dashStep
          (filterChanges ''nXJRwDcnj1SY3mz3uJtEJt'' sdk0 [[''Category'' \<mapsto> ''Jeans'']])
          mounted0))
     = [ClearContainer, Init ''https://looker.example.com'',
        CreateAndConnect ''nXJRwDcnj1SY3mz3uJtEJt'' ''Custom'' [''Created Date'' \<mapsto> ''last 7 days''],
        UpdateFilters (LookerDashboard 7) [''Category'' \<mapsto> ''Jeans''],
        Run (LookerDashboard 7),
        UpdateFilters (LookerDashboard 7) [''Country'' \<mapsto> ''USA''],
        Run (LookerDashboard 7),
        UpdateFilters (LookerDashboard 7) [''Country'' \<mapsto> ''USA,Canada''],
        Run (LookerDashboard 7)]
   \<and> embed_console (fold dashStep
       (ConnectRejected (Error ''refused'')
          # filterChanges ''nXJRwDcnj1SY3mz3uJtEJt'' sdk0
              [[''Country'' \<mapsto> ''USA''], [''Country'' \<mapsto> ''USA,Canada'']])
       (fold dashStep
          (filterChanges ''nXJRwDcnj1SY3mz3uJtEJt'' sdk0 [[''Category'' \<mapsto> ''Jeans'']])
          mounted0))
     = [(''Connection error'', Error ''refused'')]"
proof -
  have h: "hostUrlOf sdk0 = Some ''https://looker.example.com''"
    by (simp add: sdk0_def hostUrlOf_def)
  have u: "''https://looker.example.com'' \<noteq> []" by simp
  note t = embedded_dashboard_connects_once [OF h u refl refl refl, of "''nXJRwDcnj1SY3mz3uJtEJt''"
      "[[''Category'' \<mapsto> ''Jeans'']]" "[''Created Date'' \<mapsto> ''last 7 days'']"
      "LookerDashboard 7" "[[''Country'' \<mapsto> ''USA''], [''Country'' \<mapsto> ''USA,Canada'']]"
      "Error ''refused''"]
  note a = t [THEN conjunct2, THEN conjunct2, THEN conjunct1]
  note b = t [THEN conjunct2, THEN conjunct2, THEN conjunct2, THEN conjunct2, THEN conjunct2,
              THEN conjunct2, THEN conjunct2, THEN conjunct2]
  show ?thesis unfolding mounted0_def a b by simp
qed

end
